theory Spec2Isabelle
  imports Main "HOL-Library.Word" "HOL-Library.FSet"
begin

section \<open>CameraGeneration: comparison of sensor generations\<close>

text \<open>
  \<^verbatim>\<open>camera_generation.cpp\<close>: the private part of a \<^verbatim>\<open>CameraGeneration\<close> holds two
  \<^verbatim>\<open>short\<close> fields, \<^verbatim>\<open>major_\<close> and \<^verbatim>\<open>minor_\<close>. They are 16-bit words here,
  compared as signed values (\<open><s\<close>), as C++ compares two \<^verbatim>\<open>short\<close>s.
\<close>

record CameraGeneration =
  major :: "16 word"
  minor :: "16 word"

definition gen_eq :: "CameraGeneration \<Rightarrow> CameraGeneration \<Rightarrow> bool" where
  "gen_eq a c = (major a = major c \<and> minor a = minor c)"

definition gen_neq :: "CameraGeneration \<Rightarrow> CameraGeneration \<Rightarrow> bool" where
  "gen_neq a c = (\<not> gen_eq a c)"

definition gen_less :: "CameraGeneration \<Rightarrow> CameraGeneration \<Rightarrow> bool" where
  "gen_less a c = (major a <s major c \<or> (major a = major c \<and> minor a <s minor c))"

definition gen_le :: "CameraGeneration \<Rightarrow> CameraGeneration \<Rightarrow> bool" where
  "gen_le a c = (gen_eq a c \<or> gen_less a c)"

definition gen_greater :: "CameraGeneration \<Rightarrow> CameraGeneration \<Rightarrow> bool" where
  "gen_greater a c = (\<not> gen_le a c)"

definition gen_ge :: "CameraGeneration \<Rightarrow> CameraGeneration \<Rightarrow> bool" where
  "gen_ge a c = (gen_eq a c \<or> gen_greater a c)"

text \<open>The order the claim compares with: lexicographic on the signed values.\<close>

definition lex_less :: "CameraGeneration \<Rightarrow> CameraGeneration \<Rightarrow> bool" where
  "lex_less a c = (sint (major a) < sint (major c)
       \<or> (sint (major a) = sint (major c) \<and> sint (minor a) < sint (minor c)))"

section \<open>The camera session: data\<close>

text \<open>
  \<^verbatim>\<open>camera.cpp\<close>. The error codes that the modelled functions throw inside a
  \<^verbatim>\<open>CameraException\<close>.
\<close>

datatype CameraErrorCode =
    CameraNotInitialized | CameraNotFound
  | FileDoesNotExist | NotARegularFile | WrongExtension | InvalidRawfile
  | DataTransferFailed
  | IEventsStreamNotFound | IDeviceControlNotFound | IDecoderNotFound
  | IGeometryNotFound | ICDDecoderNotFound | IBoardIdentificationNotFound

datatype CameraStatus = CameraStatus_STARTED | CameraStatus_STOPPED

text \<open>
  Modelled from the spec: the enumeration \<^verbatim>\<open>RunThreadStatus\<close> is declared in
  \<^verbatim>\<open>camera_internal.h\<close>, which is absent; the source uses \<^verbatim>\<open>STARTED\<close>,
  \<^verbatim>\<open>RUNNING\<close> and \<^verbatim>\<open>STOPPED\<close>, the spec adds \<^verbatim>\<open>NOT_STARTED\<close> as the initial value.
\<close>

datatype RunThreadStatus =
  RunThread_NOT_STARTED | RunThread_STARTED | RunThread_RUNNING | RunThread_STOPPED

text \<open>
  What the session does to the outside is recorded in a trace, in the order in which it
  happens: every call of a registered callback (named by its \<^verbatim>\<open>CallbackId\<close>), every
  call into the events stream, the decoder and the device control, the creation and the
  join of the acquisition thread, and every \<^verbatim>\<open>sleep_for\<close>. Buffers are named by their
  address (an integer) and their size in bytes.
\<close>

datatype action =
    StatusChangeCallback nat CameraStatus
  | RuntimeErrorCallback nat CameraErrorCode
  | WaitNextBuffer int
  | Decode int int
  | RawCallback nat int int
  | SleepFor int
  | EventsStreamStart | EventsStreamStop | StopLogRawData
  | DeviceControlStart | DeviceControlReset | DeviceControlStop
  | ThreadSpawn | ThreadJoin
  | OpenRawFile string

text \<open>
  Where the acquisition thread stands. \<open>AtRun\<close>: created, at the entry of \<^verbatim>\<open>run\<close>,
  waiting for \<^verbatim>\<open>STARTED\<close>. \<open>AtMainLoop res\<close>: at the test of
  \<^verbatim>\<open>while (is_running_)\<close> in \<^verbatim>\<open>run_main_loop\<close>, with the current value of \<^verbatim>\<open>res\<close>.
  \<open>AtEmulate res ev_buffer ev_buffer_end bytes_step_to_decode\<close>: at the test of the
  \<^verbatim>\<open>for\<close> loop of \<^verbatim>\<open>emulate_real_time\<close>. \<open>Finished\<close>: \<^verbatim>\<open>run\<close> has returned.
  \<open>Terminated\<close>: an exception escaped the thread function, which ends the process.
\<close>

datatype pump_pc =
    NoThread | AtRun | AtMainLoop int | AtEmulate int int int nat | Finished | Terminated

text \<open>
  The fields of \<^verbatim>\<open>Camera::Private\<close> that the modelled functions read or write. A
  facility pointer is modelled by whether it is non-null. The three callback maps are
  \<^verbatim>\<open>std::map\<close>s keyed by \<^verbatim>\<open>CallbackId\<close>: the model keeps the set of keys, which is
  iterated in ascending order, and names a handler by its key. \<open>raw_data_cbs\<close> is
  \<^verbatim>\<open>raw_data_->get_pimpl().get_cbs()\<close>, \<open>decode_tag_count\<close> is
  \<^verbatim>\<open>index_manager_.counter_map_.tag_count(DECODE_CALLBACK_TAG_ID)\<close>. \<open>n_polls\<close>,
  \<open>n_decodes\<close> and \<open>n_clock_reads\<close> count the calls made so far to
  \<^verbatim>\<open>wait_next_buffer\<close>, \<^verbatim>\<open>decode\<close> and \<^verbatim>\<open>get_system_time_us\<close>.
\<close>

record camera =
  is_init :: bool
  has_device :: bool
  has_events_stream :: bool
  has_device_control :: bool
  has_decoder :: bool
  from_file :: bool
  emulate_real_time_flag :: bool
  joinable :: bool
  pump :: pump_pc
  camera_is_started :: bool
  is_running :: bool
  run_thread_status :: RunThreadStatus
  is_recording :: bool
  first_ts :: "64 word"
  first_ts_clock :: "64 word"
  status_change_callback_map :: "nat fset"
  runtime_error_callback_map :: "nat fset"
  raw_data_cbs :: "nat list"
  decode_tag_count :: nat
  n_polls :: nat
  n_decodes :: nat
  n_clock_reads :: nat
  trace :: "action list"

text \<open>
  The collaborators outside the session, as the values they return: the \<open>k\<close>-th call of
  \<^verbatim>\<open>wait_next_buffer\<close>, the buffer (address, \<^verbatim>\<open>n_rawbytes\<close>) that
  \<^verbatim>\<open>get_latest_raw_data\<close> hands out after it, the decoder's last timestamp after \<open>k\<close>
  calls of \<^verbatim>\<open>decode\<close> (a \<^verbatim>\<open>timestamp\<close>, 64 bits, read as signed), its raw event
  size, the \<open>k\<close>-th reading of \<^verbatim>\<open>get_system_time_us\<close> (a \<^verbatim>\<open>uint64_t\<close>), the file
  system as Boost.Filesystem reports it, and the device that
  \<^verbatim>\<open>DeviceDiscovery::open_raw_file\<close> returns.
\<close>

record device =
  dev_hw_identification :: bool
  dev_events_stream :: bool
  dev_geometry :: bool
  dev_decoder :: bool
  dev_cd_decoder :: bool

record env =
  wait_next_buffer :: "nat \<Rightarrow> int"
  get_latest_raw_data :: "nat \<Rightarrow> int \<times> int"
  get_last_timestamp :: "nat \<Rightarrow> 64 word"
  get_raw_event_size_bytes :: nat
  get_system_time_us :: "nat \<Rightarrow> 64 word"
  fs_exists :: "string \<Rightarrow> bool"
  fs_is_regular_file :: "string \<Rightarrow> bool"
  fs_extension :: "string \<Rightarrow> string"
  discovery_open_raw_file :: "string \<Rightarrow> device option"

text \<open>
  A call either returns a value or throws a \<^verbatim>\<open>CameraException\<close>; in both cases the
  session is left in some state. A call that does not come back to its caller (it waits
  for ever, or the process ends) has no result: \<open>None\<close>.
\<close>

datatype 'a result = Returns 'a camera | Throws CameraErrorCode camera

definition emit :: "action list \<Rightarrow> camera \<Rightarrow> camera" where
  "emit evs c = c\<lparr>trace := trace c @ evs\<rparr>"

section \<open>The camera session: checks and notifications\<close>

definition check_initialization :: "camera \<Rightarrow> CameraErrorCode option" where
  "check_initialization c = (if \<not> is_init c then Some CameraNotInitialized else None)"

definition check_events_stream_instance :: "camera \<Rightarrow> CameraErrorCode option" where
  "check_events_stream_instance c =
     (case check_initialization c of Some e \<Rightarrow> Some e
      | None \<Rightarrow> if \<not> has_events_stream c then Some IEventsStreamNotFound else None)"

definition check_ccam_instance :: "camera \<Rightarrow> CameraErrorCode option" where
  "check_ccam_instance c =
     (case check_initialization c of Some e \<Rightarrow> Some e
      | None \<Rightarrow> if \<not> has_device_control c then Some IDeviceControlNotFound else None)"

definition check_camera_device_instance :: "camera \<Rightarrow> CameraErrorCode option" where
  "check_camera_device_instance c =
     (case check_initialization c of Some e \<Rightarrow> Some e
      | None \<Rightarrow> if \<not> has_device c then Some CameraNotFound else None)"

definition check_decoder_device_instance :: "camera \<Rightarrow> CameraErrorCode option" where
  "check_decoder_device_instance c =
     (case check_initialization c of Some e \<Rightarrow> Some e
      | None \<Rightarrow> if \<not> has_decoder c then Some IDecoderNotFound else None)"

text \<open>
  \<^verbatim>\<open>set_is_running\<close> tests whether the value changes (line 662) and, if so, stores it,
  copies the status-change map under \<^verbatim>\<open>cbs_mutex_\<close> and calls every handler of the
  copy (lines 663 to 671). The test and the store are under no lock. A call that no
  other call overlaps is \<open>set_is_running\<close>.
\<close>

definition set_is_running_test :: "bool \<Rightarrow> camera \<Rightarrow> bool" where
  "set_is_running_test b c = (is_running c \<noteq> b)"

definition set_is_running_body :: "bool \<Rightarrow> camera \<Rightarrow> camera" where
  "set_is_running_body b c =
     emit (map (\<lambda>i. StatusChangeCallback i
                  (if b then CameraStatus_STARTED else CameraStatus_STOPPED))
             (sorted_list_of_fset (status_change_callback_map c)))
       (c\<lparr>is_running := b\<rparr>)"

definition set_is_running :: "bool \<Rightarrow> camera \<Rightarrow> camera" where
  "set_is_running b c = (if set_is_running_test b c then set_is_running_body b c else c)"

text \<open>
  \<^verbatim>\<open>stop\<close> calls \<^verbatim>\<open>set_is_running(false)\<close> on the caller's thread (line 271) and
  \<^verbatim>\<open>end_run\<close> calls it on the acquisition thread (line 687). Two calls that overlap,
  each making its test before the other has stored:
\<close>

definition set_is_running_overlapped :: "bool \<Rightarrow> camera \<Rightarrow> camera" where
  "set_is_running_overlapped b c =
     (let test1 = set_is_running_test b c;
          test2 = set_is_running_test b c;
          c1 = (if test1 then set_is_running_body b c else c)
      in if test2 then set_is_running_body b c1 else c1)"

text \<open>\<^verbatim>\<open>end_run\<close>: the runtime-error handlers are called when \<^verbatim>\<open>run_output == -1\<close>.\<close>

definition end_run :: "int \<Rightarrow> camera \<Rightarrow> camera" where
  "end_run run_output c =
     set_is_running False
       (if run_output = - 1
        then emit (map (\<lambda>i. RuntimeErrorCallback i DataTransferFailed)
                     (sorted_list_of_fset (runtime_error_callback_map c))) c
        else c)"

definition init_clocks :: "env \<Rightarrow> camera \<Rightarrow> camera" where
  "init_clocks env c =
     c\<lparr>first_ts := get_last_timestamp env (n_decodes c), first_ts_clock := 0\<rparr>"

definition stop_recording :: "camera \<Rightarrow> unit result" where
  "stop_recording c =
     (case check_events_stream_instance c of
        Some e \<Rightarrow> Throws e c
      | None \<Rightarrow> Returns () ((emit [StopLogRawData] c)\<lparr>is_recording := False\<rparr>))"

section \<open>The acquisition pump\<close>

definition decode :: "int \<Rightarrow> int \<Rightarrow> camera \<Rightarrow> camera" where
  "decode b e c = (emit [Decode b e] c)\<lparr>n_decodes := Suc (n_decodes c)\<rparr>"

definition call_raw_cbs :: "int \<Rightarrow> int \<Rightarrow> camera \<Rightarrow> camera" where
  "call_raw_cbs b n c = emit (map (\<lambda>i. RawCallback i b n) (raw_data_cbs c)) c"

text \<open>
  The branch of \<^verbatim>\<open>run_main_loop\<close> without real-time emulation: decode when a decode
  callback is registered, then call the raw callbacks. The bookkeeping of the timing
  profiler (\<^verbatim>\<open>TimedOperation\<close>, \<^verbatim>\<open>setNumProcessedElements\<close>) is not part of the model.
\<close>

definition process_buffer :: "int \<Rightarrow> int \<Rightarrow> camera \<Rightarrow> camera" where
  "process_buffer ev_buffer n_rawbytes c =
     call_raw_cbs ev_buffer n_rawbytes
       (if 0 < decode_tag_count c
        then decode ev_buffer (ev_buffer + n_rawbytes) c
        else c)"

subsection \<open>Real-time emulation\<close>

text \<open>
  \<^verbatim>\<open>bytes_step_to_decode\<close> is a \<^verbatim>\<open>uint32_t\<close>:
  \<^verbatim>\<open>std::max(128u, get_raw_event_size_bytes() * uint32_t(std::round(1024 * 1.)))\<close>,
  the product taken in 32 bits.
\<close>

definition bytes_step_to_decode :: "nat \<Rightarrow> nat" where
  "bytes_step_to_decode s = max 128 ((s * 1024) mod 2 ^ 32)"

text \<open>
  \<^verbatim>\<open>(1 / reading_speed_factor) * (cur_ts - first_ts_)\<close> is a product of doubles: the
  64-bit difference is converted to a double, multiplied by 1.0 and converted back.
  A double has 53 significant bits; integers up to \<open>2 ^ 53\<close> in absolute value are
  exact, larger ones are rounded to the nearest representable value, ties to even.
\<close>

fun bit_length :: "nat \<Rightarrow> nat" where
  "bit_length n = (if n = 0 then 0 else Suc (bit_length (n div 2)))"

declare bit_length.simps [simp del]

definition round_to_double :: "int \<Rightarrow> int" where
  "round_to_double x =
     (if \<bar>x\<bar> \<le> 2 ^ 53 then x
      else let e = bit_length (nat \<bar>x\<bar>) - 53;
               q = \<bar>x\<bar> div 2 ^ e;
               r = \<bar>x\<bar> mod 2 ^ e;
               m = (if 2 ^ (e - 1) < r \<or> (r = 2 ^ (e - 1) \<and> odd q) then q + 1 else q)
           in sgn x * m * 2 ^ e)"

definition scaled_diff :: "64 word \<Rightarrow> 64 word \<Rightarrow> 64 word" where
  "scaled_diff cur_ts first = word_of_int (round_to_double (sint (cur_ts - first)))"

text \<open>
  The anchoring of the clocks (``compute the offset first, if never done''): a
  \<^verbatim>\<open>first_ts_clock_\<close> of 0 means that it has not been done.
\<close>

definition compute_offset :: "64 word \<Rightarrow> 64 word \<Rightarrow> camera \<Rightarrow> camera" where
  "compute_offset cur_ts cur_ts_clock c =
     (if first_ts_clock c = 0 \<and> cur_ts \<noteq> first_ts c
      then c\<lparr>first_ts_clock := cur_ts_clock, first_ts := cur_ts\<rparr>
      else c)"

text \<open>
  The pacing: \<^verbatim>\<open>expected_ts\<close> is a \<^verbatim>\<open>uint64_t\<close>, compared with the clock as
  unsigned; \<^verbatim>\<open>std::chrono::microseconds\<close> counts in a signed 64-bit integer.
\<close>

definition cadence :: "64 word \<Rightarrow> 64 word \<Rightarrow> camera \<Rightarrow> camera" where
  "cadence cur_ts cur_ts_clock c =
     (let expected_ts = first_ts_clock c + scaled_diff cur_ts (first_ts c)
      in if cur_ts_clock < expected_ts
         then emit [SleepFor (sint (expected_ts - cur_ts_clock))] c
         else c)"

text \<open>
  One turn of the \<^verbatim>\<open>for\<close> loop of \<^verbatim>\<open>emulate_real_time\<close>, from the current
  \<^verbatim>\<open>ev_buffer\<close>; returns the advanced \<^verbatim>\<open>ev_buffer\<close>. \<^verbatim>\<open>remains\<close> is the pointer
  distance stored in a \<^verbatim>\<open>uint32_t\<close>.
\<close>

definition emulate_iter :: "env \<Rightarrow> int \<Rightarrow> int \<Rightarrow> nat \<Rightarrow> camera \<Rightarrow> int \<times> camera" where
  "emulate_iter env ev_buffer ev_buffer_end step c =
     (let remains = (ev_buffer_end - ev_buffer) mod 2 ^ 32;
          bytes_to_decode = min remains (int step);
          c1 = decode ev_buffer (ev_buffer + bytes_to_decode) c;
          c2 = call_raw_cbs ev_buffer bytes_to_decode c1;
          cur_ts = get_last_timestamp env (n_decodes c2);
          cur_ts_clock = get_system_time_us env (n_clock_reads c2);
          c3 = c2\<lparr>n_clock_reads := Suc (n_clock_reads c2)\<rparr>;
          c4 = compute_offset cur_ts cur_ts_clock c3;
          c5 = cadence cur_ts cur_ts_clock c4
      in (ev_buffer + bytes_to_decode, c5))"

definition emulate_cond :: "int \<Rightarrow> int \<Rightarrow> camera \<Rightarrow> bool" where
  "emulate_cond ev_buffer ev_buffer_end c = (ev_buffer < ev_buffer_end \<and> is_running c)"

text \<open>
  The loop, run by the thread alone. It need not end (a step of 0 bytes never advances):
  the first argument bounds the number of turns, and \<open>None\<close> says that more are needed.
\<close>

fun emulate_loop :: "nat \<Rightarrow> env \<Rightarrow> int \<Rightarrow> int \<Rightarrow> nat \<Rightarrow> camera \<Rightarrow> camera option" where
  "emulate_loop 0 env ev_buffer ev_buffer_end step c =
     (if emulate_cond ev_buffer ev_buffer_end c then None else Some c)"
| "emulate_loop (Suc k) env ev_buffer ev_buffer_end step c =
     (if emulate_cond ev_buffer ev_buffer_end c
      then (case emulate_iter env ev_buffer ev_buffer_end step c of
              (ev_buffer', c') \<Rightarrow> emulate_loop k env ev_buffer' ev_buffer_end step c')
      else Some c)"

definition emulate_real_time :: "nat \<Rightarrow> env \<Rightarrow> int \<Rightarrow> int \<Rightarrow> camera \<Rightarrow> camera option" where
  "emulate_real_time fuel env ev_buffer n_rawbytes c =
     emulate_loop fuel env ev_buffer (ev_buffer + n_rawbytes)
       (bytes_step_to_decode (get_raw_event_size_bytes env)) c"

subsection \<open>The thread, step by step\<close>

text \<open>
  \<^verbatim>\<open>run_from_camera\<close> and \<^verbatim>\<open>run_from_file\<close> return \<^verbatim>\<open>int\<close> and end with
  \<^verbatim>\<open>if (!run_main_loop(profiler)) return false; return true;\<close>.
\<close>

definition run_output_of :: "int \<Rightarrow> int" where
  "run_output_of res = (if res = 0 then 0 else 1)"

text \<open>\<^verbatim>\<open>run_main_loop\<close> returns \<^verbatim>\<open>res\<close>; \<^verbatim>\<open>run\<close> passes the result on to \<^verbatim>\<open>end_run\<close>.\<close>

definition run_finish :: "int \<Rightarrow> camera \<Rightarrow> camera" where
  "run_finish res c = (end_run (run_output_of res) c)\<lparr>pump := Finished\<rparr>"

text \<open>The first statements of \<^verbatim>\<open>run_main_loop\<close>, up to the loop.\<close>

definition run_main_loop_begin :: "env \<Rightarrow> camera \<Rightarrow> camera" where
  "run_main_loop_begin env c =
     (init_clocks env (c\<lparr>camera_is_started := True\<rparr>))\<lparr>pump := AtMainLoop 0\<rparr>"

definition run_from_camera_begin :: "env \<Rightarrow> camera \<Rightarrow> camera" where
  "run_from_camera_begin env c =
     (case check_ccam_instance c of
        Some e \<Rightarrow> c\<lparr>pump := Terminated\<rparr>
      | None \<Rightarrow> run_main_loop_begin env
                  (emit [EventsStreamStart, DeviceControlStart, DeviceControlReset] c))"

definition run_from_file_begin :: "env \<Rightarrow> camera \<Rightarrow> camera" where
  "run_from_file_begin env c = run_main_loop_begin env (emit [EventsStreamStart] c)"

text \<open>
  \<^verbatim>\<open>run\<close>, from its entry to the main loop: wait until the status is \<^verbatim>\<open>STARTED\<close>
  (the thread stays where it is until then), set \<^verbatim>\<open>RUNNING\<close>, check the facilities,
  branch on \<^verbatim>\<open>from_file_\<close>.
\<close>

definition run_begin :: "env \<Rightarrow> camera \<Rightarrow> camera" where
  "run_begin env c =
     (if run_thread_status c \<noteq> RunThread_STARTED then c
      else let c1 = c\<lparr>run_thread_status := RunThread_RUNNING\<rparr>
           in if check_camera_device_instance c1 \<noteq> None
                 \<or> check_events_stream_instance c1 \<noteq> None
                 \<or> check_decoder_device_instance c1 \<noteq> None
              then c1\<lparr>pump := Terminated\<rparr>
              else if from_file c1 then run_from_file_begin env c1
              else run_from_camera_begin env c1)"

text \<open>One turn of the \<^verbatim>\<open>while\<close> loop of \<^verbatim>\<open>run_main_loop\<close>, or its exit.\<close>

definition run_main_loop_iter :: "env \<Rightarrow> int \<Rightarrow> camera \<Rightarrow> camera" where
  "run_main_loop_iter env res0 c =
     (if \<not> is_running c then run_finish res0 c
      else let res = wait_next_buffer env (n_polls c);
               c1 = (emit [WaitNextBuffer res] c)\<lparr>n_polls := Suc (n_polls c)\<rparr>
           in if res < 0 then run_finish res c1
              else if 0 < res
              then (case get_latest_raw_data env (n_polls c) of
                      (ev_buffer, n_rawbytes) \<Rightarrow>
                        if emulate_real_time_flag c1
                        then c1\<lparr>pump := AtEmulate res ev_buffer (ev_buffer + n_rawbytes)
                                   (bytes_step_to_decode (get_raw_event_size_bytes env))\<rparr>
                        else (process_buffer ev_buffer n_rawbytes c1)\<lparr>pump := AtMainLoop res\<rparr>)
              else c1\<lparr>pump := AtMainLoop res\<rparr>)"

text \<open>One turn of the loop of \<^verbatim>\<open>emulate_real_time\<close>, or its exit back to the main loop.\<close>

definition emulate_step :: "env \<Rightarrow> int \<Rightarrow> int \<Rightarrow> int \<Rightarrow> nat \<Rightarrow> camera \<Rightarrow> camera" where
  "emulate_step env res ev_buffer ev_buffer_end step c =
     (if emulate_cond ev_buffer ev_buffer_end c
      then (case emulate_iter env ev_buffer ev_buffer_end step c of
              (ev_buffer', c') \<Rightarrow> c'\<lparr>pump := AtEmulate res ev_buffer' ev_buffer_end step\<rparr>)
      else c\<lparr>pump := AtMainLoop res\<rparr>)"

fun pump_step :: "env \<Rightarrow> camera \<Rightarrow> camera" where
  "pump_step env c =
     (case pump c of
        NoThread \<Rightarrow> c
      | AtRun \<Rightarrow> run_begin env c
      | AtMainLoop res \<Rightarrow> run_main_loop_iter env res c
      | AtEmulate res ev_buffer ev_buffer_end step \<Rightarrow>
          emulate_step env res ev_buffer ev_buffer_end step c
      | Finished \<Rightarrow> c
      | Terminated \<Rightarrow> c)"

text \<open>
  The thread run alone until \<^verbatim>\<open>run\<close> returns; \<open>None\<close> when the given number of steps
  does not suffice or the process has ended.
\<close>

fun pump_run :: "nat \<Rightarrow> env \<Rightarrow> camera \<Rightarrow> camera option" where
  "pump_run 0 env c = (if pump c = Finished then Some c else None)"
| "pump_run (Suc k) env c =
     (if pump c = Finished then Some c
      else if pump c = Terminated \<or> pump c = NoThread then None
      else pump_run k env (pump_step env c))"

text \<open>
  A run of the thread while other threads may clear \<^verbatim>\<open>is_running_\<close>: the schedule
  says, before each step of the thread, whether \<^verbatim>\<open>set_is_running(false)\<close> has just
  been called from outside (as \<^verbatim>\<open>stop\<close> does). The anchors of the clocks and the
  counters of polls, decodings and clock readings are touched by the acquisition thread
  alone.
\<close>

fun pump_steps :: "env \<Rightarrow> bool list \<Rightarrow> camera \<Rightarrow> camera" where
  "pump_steps env [] c = c"
| "pump_steps env (stop_now # sched) c =
     pump_steps env sched (pump_step env (if stop_now then set_is_running False c else c))"

section \<open>The caller's side: start, stop, open_raw_file\<close>

text \<open>
  While the caller waits (a busy loop, a condition variable, a join), the acquisition
  thread takes its steps.
\<close>

fun wait_camera_is_started :: "nat \<Rightarrow> env \<Rightarrow> camera \<Rightarrow> camera option" where
  "wait_camera_is_started 0 env c = (if camera_is_started c then Some c else None)"
| "wait_camera_is_started (Suc k) env c =
     (if camera_is_started c then Some c
      else wait_camera_is_started k env (pump_step env c))"

fun wait_running :: "nat \<Rightarrow> env \<Rightarrow> camera \<Rightarrow> camera option" where
  "wait_running 0 env c =
     (if run_thread_status c = RunThread_RUNNING then Some c else None)"
| "wait_running (Suc k) env c =
     (if run_thread_status c = RunThread_RUNNING then Some c
      else wait_running k env (pump_step env c))"

definition join :: "nat \<Rightarrow> env \<Rightarrow> camera \<Rightarrow> camera option" where
  "join fuel env c =
     (case pump_run fuel env c of
        None \<Rightarrow> None
      | Some c' \<Rightarrow> Some ((emit [ThreadJoin] c')\<lparr>joinable := False, pump := NoThread\<rparr>))"

definition start :: "nat \<Rightarrow> env \<Rightarrow> camera \<Rightarrow> bool result option" where
  "start fuel env c =
     (case check_initialization c of
        Some e \<Rightarrow> Some (Throws e c)
      | None \<Rightarrow>
          if joinable c then Some (Returns False c)
          else let c1 = c\<lparr>camera_is_started := False\<rparr>;
                   c2 = (emit [ThreadSpawn] c1)\<lparr>joinable := True, pump := AtRun\<rparr>;
                   c3 = set_is_running True c2;
                   c4 = c3\<lparr>run_thread_status := RunThread_STARTED\<rparr>
               in map_option (Returns True) (wait_camera_is_started fuel env c4))"

text \<open>
  What \<^verbatim>\<open>stop\<close> does between the wait for \<^verbatim>\<open>RUNNING\<close> and the join. The events
  stream pointer is dereferenced without a check: \<open>None\<close> when it is null.
\<close>

definition stop_request :: "camera \<Rightarrow> camera option" where
  "stop_request c =
     (let c1 = set_is_running False (c\<lparr>run_thread_status := RunThread_STOPPED\<rparr>)
      in if \<not> has_events_stream c1 then None
         else Some (emit (if has_device_control c1
                          then [EventsStreamStop, DeviceControlStop]
                          else [EventsStreamStop]) c1))"

definition stop :: "nat \<Rightarrow> env \<Rightarrow> camera \<Rightarrow> bool result option" where
  "stop fuel env c =
     (case check_initialization c of
        Some e \<Rightarrow> Some (Throws e c)
      | None \<Rightarrow>
          if \<not> joinable c then Some (Returns False c)
          else (case wait_running fuel env c of
                  None \<Rightarrow> None
                | Some c1 \<Rightarrow>
                    (case stop_request c1 of
                       None \<Rightarrow> None
                     | Some c2 \<Rightarrow>
                         (case join fuel env c2 of
                            None \<Rightarrow> None
                          | Some c3 \<Rightarrow>
                              (case stop_recording c3 of
                                 Throws e c4 \<Rightarrow> Some (Throws e c4)
                               | Returns u c4 \<Rightarrow> Some (Returns True c4))))))"

text \<open>\<^verbatim>\<open>init_common_interfaces\<close> with \<^verbatim>\<open>init_callbacks\<close>, as far as they can throw.\<close>

definition init_common_interfaces :: "device \<Rightarrow> camera \<Rightarrow> unit result" where
  "init_common_interfaces d c =
     (let c1 = c\<lparr>has_events_stream := dev_events_stream d\<rparr>
      in (case check_events_stream_instance c1 of
            Some e \<Rightarrow> Throws e c1
          | None \<Rightarrow>
              (if \<not> dev_geometry d then Throws IGeometryNotFound c1
               else (let c2 = c1\<lparr>has_decoder := dev_decoder d\<rparr>
                     in (case check_decoder_device_instance c2 of
                           Some e \<Rightarrow> Throws e c2
                         | None \<Rightarrow>
                             (if \<not> dev_cd_decoder d then Throws ICDDecoderNotFound c2
                              else Returns () c2))))))"

text \<open>
  \<^verbatim>\<open>open_raw_file\<close>: stop a running session, mark the session initialized, check the
  path (it exists, it is a regular file, its extension is \<^verbatim>\<open>.raw\<close>), and only then
  open the device. The stream configuration is only handed on to the device discovery
  and is left out.
\<close>

definition open_raw_file :: "nat \<Rightarrow> env \<Rightarrow> string \<Rightarrow> bool \<Rightarrow> camera \<Rightarrow> unit result option" where
  "open_raw_file fuel env rawfile reproduce_camera_behavior c =
     (case (if is_init c \<and> joinable c then stop fuel env c else Some (Returns False c)) of
        None \<Rightarrow> None
      | Some (Throws e c') \<Rightarrow> Some (Throws e c')
      | Some (Returns b c0) \<Rightarrow>
          (let c1 = c0\<lparr>is_init := True\<rparr>
           in if \<not> fs_exists env rawfile then Some (Throws FileDoesNotExist c1)
              else if \<not> fs_is_regular_file env rawfile then Some (Throws NotARegularFile c1)
              else if fs_extension env rawfile \<noteq> ''.raw'' then Some (Throws WrongExtension c1)
              else (let c2 = emit [OpenRawFile rawfile] c1
                    in (case discovery_open_raw_file env rawfile of
                          None \<Rightarrow> Some (Throws InvalidRawfile (c2\<lparr>has_device := False\<rparr>))
                        | Some d \<Rightarrow>
                            (let c3 = c2\<lparr>has_device := True, from_file := True,
                                         emulate_real_time_flag := reproduce_camera_behavior\<rparr>
                             in if \<not> dev_hw_identification d
                                then Some (Throws IBoardIdentificationNotFound c3)
                                else Some (init_common_interfaces d c3))))))"

section \<open>Reading the trace\<close>

text \<open>The actions that a call added to the trace.\<close>

definition new_actions :: "camera \<Rightarrow> camera \<Rightarrow> action list" where
  "new_actions c c' = drop (length (trace c)) (trace c')"

text \<open>The actions that the acquisition thread performs.\<close>

fun pump_action :: "action \<Rightarrow> bool" where
  "pump_action (StatusChangeCallback i s) = True"
| "pump_action (WaitNextBuffer r) = True"
| "pump_action (Decode b e) = True"
| "pump_action (RawCallback i b n) = True"
| "pump_action (SleepFor d) = True"
| "pump_action EventsStreamStart = True"
| "pump_action DeviceControlStart = True"
| "pump_action DeviceControlReset = True"
| "pump_action a = False"

text \<open>The sleeps requested and the byte ranges decoded, in order.\<close>

fun sleeps :: "action list \<Rightarrow> int list" where
  "sleeps [] = []"
| "sleeps (SleepFor d # evs) = d # sleeps evs"
| "sleeps (a # evs) = sleeps evs"

fun decodes :: "action list \<Rightarrow> (int \<times> int) list" where
  "decodes [] = []"
| "decodes (Decode b e # evs) = (b, e) # decodes evs"
| "decodes (a # evs) = decodes evs"

text \<open>
  The consecutive ranges into which a buffer of \<open>n\<close> bytes at address \<open>ev\<close> is cut by
  steps of \<open>step\<close> bytes: all of \<open>step\<close> bytes, except a shorter last one when \<open>step\<close>
  does not divide \<open>n\<close>.
\<close>

definition sub_buffers :: "int \<Rightarrow> int \<Rightarrow> nat \<Rightarrow> (int \<times> int) list" where
  "sub_buffers ev n step =
     map (\<lambda>i. (ev + int (i * step), ev + min n (int (Suc i * step))))
       [0..<(nat n + step - 1) div step]"

text \<open>
  The sleep that \<open>cadence\<close> requests, as a function of the anchors, the decoded timestamp
  and the clock.
\<close>

definition pacing :: "64 word \<Rightarrow> 64 word \<Rightarrow> 64 word \<Rightarrow> 64 word \<Rightarrow> action list" where
  "pacing a_clk a_ts ts clk =
     (if clk < a_clk + scaled_diff ts a_ts
      then [SleepFor (sint (a_clk + scaled_diff ts a_ts - clk))] else [])"

text \<open>
  The anchors of a run that began with \<open>d0\<close> decodings and \<open>t0\<close> clock readings done,
  when the first sub-buffer that changes the decoded timestamp is the one of index \<open>k\<close>
  (counting from 0): up to and including \<open>k\<close> sub-buffers they are the initial timestamp
  and 0, from then on the timestamp and the clock read at sub-buffer \<open>k\<close>.
\<close>

definition anchored_as :: "env \<Rightarrow> nat \<Rightarrow> nat \<Rightarrow> nat \<Rightarrow> camera \<Rightarrow> bool" where
  "anchored_as env d0 t0 k c =
     (d0 \<le> n_decodes c \<and> n_clock_reads c = t0 + (n_decodes c - d0)
      \<and> first_ts c = (if n_decodes c - d0 \<le> k then get_last_timestamp env d0
                      else get_last_timestamp env (d0 + Suc k))
      \<and> first_ts_clock c = (if n_decodes c - d0 \<le> k then 0
                            else get_system_time_us env (t0 + k)))"

section \<open>Concrete sessions\<close>

text \<open>
  A session on a live camera as its constructor leaves it, with one callback of each
  kind registered, and collaborators whose stream fails at once.
\<close>

definition example_camera :: camera where
  "example_camera =
     \<lparr>is_init = True, has_device = True, has_events_stream = True,
      has_device_control = True, has_decoder = True, from_file = False,
      emulate_real_time_flag = False, joinable = False, pump = NoThread,
      camera_is_started = False, is_running = False,
      run_thread_status = RunThread_NOT_STARTED, is_recording = False,
      first_ts = 0, first_ts_clock = 0,
      status_change_callback_map = {|1|}, runtime_error_callback_map = {|2|},
      raw_data_cbs = [3], decode_tag_count = 1,
      n_polls = 0, n_decodes = 0, n_clock_reads = 0, trace = []\<rparr>"

definition example_env :: env where
  "example_env =
     \<lparr>wait_next_buffer = (\<lambda>k. - 1),
      get_latest_raw_data = (\<lambda>k. (0, 10000)),
      get_last_timestamp = (\<lambda>k. 400),
      get_raw_event_size_bytes = 4,
      get_system_time_us = (\<lambda>k. 1100),
      fs_exists = (\<lambda>p. p = ''a.raw'' \<or> p = ''b.dat'' \<or> p = ''dir''),
      fs_is_regular_file = (\<lambda>p. p = ''a.raw'' \<or> p = ''b.dat''),
      fs_extension = (\<lambda>p. drop (length p - 4) p),
      discovery_open_raw_file = (\<lambda>p. None)\<rparr>"

text \<open>
  A session replaying a file with real-time emulation, at the start of its acquisition
  thread; a stream that always has a buffer of 10000 bytes; decoders whose timestamp
  changes at the second sub-buffer, goes down at the first, and goes up at the first
  and again at the second.
\<close>

definition replay_camera :: camera where
  "replay_camera =
     example_camera\<lparr>from_file := True, emulate_real_time_flag := True, joinable := True,
       pump := AtRun, is_running := True, run_thread_status := RunThread_STARTED\<rparr>"

definition replay_env :: "(nat \<Rightarrow> 64 word) \<Rightarrow> (nat \<Rightarrow> 64 word) \<Rightarrow> env" where
  "replay_env ts clk =
     example_env\<lparr>wait_next_buffer := (\<lambda>k. 1), get_last_timestamp := ts,
       get_system_time_us := clk\<rparr>"

section \<open>Theorems\<close>

section \<open>Basic facts\<close>

lemma trace_emit [simp]: "trace (emit evs c) = trace c @ evs"
  by (simp add: emit_def)

lemma emit_fields [simp]:
  "is_init (emit evs c) = is_init c"
  "has_device (emit evs c) = has_device c"
  "has_events_stream (emit evs c) = has_events_stream c"
  "has_device_control (emit evs c) = has_device_control c"
  "has_decoder (emit evs c) = has_decoder c"
  "from_file (emit evs c) = from_file c"
  "emulate_real_time_flag (emit evs c) = emulate_real_time_flag c"
  "joinable (emit evs c) = joinable c"
  "pump (emit evs c) = pump c"
  "camera_is_started (emit evs c) = camera_is_started c"
  "is_running (emit evs c) = is_running c"
  "run_thread_status (emit evs c) = run_thread_status c"
  "is_recording (emit evs c) = is_recording c"
  "first_ts (emit evs c) = first_ts c"
  "first_ts_clock (emit evs c) = first_ts_clock c"
  "status_change_callback_map (emit evs c) = status_change_callback_map c"
  "runtime_error_callback_map (emit evs c) = runtime_error_callback_map c"
  "raw_data_cbs (emit evs c) = raw_data_cbs c"
  "decode_tag_count (emit evs c) = decode_tag_count c"
  "n_polls (emit evs c) = n_polls c"
  "n_decodes (emit evs c) = n_decodes c"
  "n_clock_reads (emit evs c) = n_clock_reads c"
  by (simp_all add: emit_def)

lemma new_actions_append: "trace c' = trace c @ evs \<Longrightarrow> new_actions c c' = evs"
  by (simp add: new_actions_def)

lemma count_list_distinct:
  "distinct xs \<Longrightarrow> count_list xs a = (if a \<in> set xs then 1 else 0)"
  by (induction xs) auto

lemma trace_set_is_running:
  "trace (set_is_running b c) = trace c @
     (if is_running c \<noteq> b
      then map (\<lambda>i. StatusChangeCallback i
                  (if b then CameraStatus_STARTED else CameraStatus_STOPPED))
             (sorted_list_of_fset (status_change_callback_map c))
      else [])"
  by (simp add: set_is_running_def set_is_running_test_def set_is_running_body_def)

lemma is_running_set_is_running [simp]: "is_running (set_is_running b c) = b"
  by (simp add: set_is_running_def set_is_running_test_def set_is_running_body_def)

lemma decode_fields [simp]:
  "is_init (decode b e c) = is_init c"
  "has_device (decode b e c) = has_device c"
  "has_events_stream (decode b e c) = has_events_stream c"
  "has_device_control (decode b e c) = has_device_control c"
  "has_decoder (decode b e c) = has_decoder c"
  "from_file (decode b e c) = from_file c"
  "emulate_real_time_flag (decode b e c) = emulate_real_time_flag c"
  "joinable (decode b e c) = joinable c"
  "pump (decode b e c) = pump c"
  "camera_is_started (decode b e c) = camera_is_started c"
  "is_running (decode b e c) = is_running c"
  "run_thread_status (decode b e c) = run_thread_status c"
  "is_recording (decode b e c) = is_recording c"
  "first_ts (decode b e c) = first_ts c"
  "first_ts_clock (decode b e c) = first_ts_clock c"
  "status_change_callback_map (decode b e c) = status_change_callback_map c"
  "runtime_error_callback_map (decode b e c) = runtime_error_callback_map c"
  "raw_data_cbs (decode b e c) = raw_data_cbs c"
  "decode_tag_count (decode b e c) = decode_tag_count c"
  "n_polls (decode b e c) = n_polls c"
  "n_clock_reads (decode b e c) = n_clock_reads c"
  by (simp_all add: decode_def)

lemma call_raw_cbs_fields [simp]:
  "is_init (call_raw_cbs b n c) = is_init c"
  "has_device (call_raw_cbs b n c) = has_device c"
  "has_events_stream (call_raw_cbs b n c) = has_events_stream c"
  "has_device_control (call_raw_cbs b n c) = has_device_control c"
  "has_decoder (call_raw_cbs b n c) = has_decoder c"
  "from_file (call_raw_cbs b n c) = from_file c"
  "emulate_real_time_flag (call_raw_cbs b n c) = emulate_real_time_flag c"
  "joinable (call_raw_cbs b n c) = joinable c"
  "pump (call_raw_cbs b n c) = pump c"
  "camera_is_started (call_raw_cbs b n c) = camera_is_started c"
  "is_running (call_raw_cbs b n c) = is_running c"
  "run_thread_status (call_raw_cbs b n c) = run_thread_status c"
  "is_recording (call_raw_cbs b n c) = is_recording c"
  "first_ts (call_raw_cbs b n c) = first_ts c"
  "first_ts_clock (call_raw_cbs b n c) = first_ts_clock c"
  "status_change_callback_map (call_raw_cbs b n c) = status_change_callback_map c"
  "runtime_error_callback_map (call_raw_cbs b n c) = runtime_error_callback_map c"
  "raw_data_cbs (call_raw_cbs b n c) = raw_data_cbs c"
  "decode_tag_count (call_raw_cbs b n c) = decode_tag_count c"
  "n_polls (call_raw_cbs b n c) = n_polls c"
  "n_decodes (call_raw_cbs b n c) = n_decodes c"
  "n_clock_reads (call_raw_cbs b n c) = n_clock_reads c"
  by (simp_all add: call_raw_cbs_def)

lemma set_is_running_fields [simp]:
  "is_init (set_is_running b c) = is_init c"
  "has_device (set_is_running b c) = has_device c"
  "has_events_stream (set_is_running b c) = has_events_stream c"
  "has_device_control (set_is_running b c) = has_device_control c"
  "has_decoder (set_is_running b c) = has_decoder c"
  "from_file (set_is_running b c) = from_file c"
  "emulate_real_time_flag (set_is_running b c) = emulate_real_time_flag c"
  "joinable (set_is_running b c) = joinable c"
  "pump (set_is_running b c) = pump c"
  "camera_is_started (set_is_running b c) = camera_is_started c"
  "run_thread_status (set_is_running b c) = run_thread_status c"
  "is_recording (set_is_running b c) = is_recording c"
  "first_ts (set_is_running b c) = first_ts c"
  "first_ts_clock (set_is_running b c) = first_ts_clock c"
  "status_change_callback_map (set_is_running b c) = status_change_callback_map c"
  "runtime_error_callback_map (set_is_running b c) = runtime_error_callback_map c"
  "raw_data_cbs (set_is_running b c) = raw_data_cbs c"
  "decode_tag_count (set_is_running b c) = decode_tag_count c"
  "n_polls (set_is_running b c) = n_polls c"
  "n_decodes (set_is_running b c) = n_decodes c"
  "n_clock_reads (set_is_running b c) = n_clock_reads c"
  by (simp_all add: set_is_running_def set_is_running_test_def set_is_running_body_def)

lemma end_run_fields [simp]:
  "is_init (end_run r c) = is_init c"
  "has_device (end_run r c) = has_device c"
  "has_events_stream (end_run r c) = has_events_stream c"
  "has_device_control (end_run r c) = has_device_control c"
  "has_decoder (end_run r c) = has_decoder c"
  "from_file (end_run r c) = from_file c"
  "emulate_real_time_flag (end_run r c) = emulate_real_time_flag c"
  "joinable (end_run r c) = joinable c"
  "pump (end_run r c) = pump c"
  "camera_is_started (end_run r c) = camera_is_started c"
  "run_thread_status (end_run r c) = run_thread_status c"
  "is_recording (end_run r c) = is_recording c"
  "first_ts (end_run r c) = first_ts c"
  "first_ts_clock (end_run r c) = first_ts_clock c"
  "status_change_callback_map (end_run r c) = status_change_callback_map c"
  "runtime_error_callback_map (end_run r c) = runtime_error_callback_map c"
  "raw_data_cbs (end_run r c) = raw_data_cbs c"
  "decode_tag_count (end_run r c) = decode_tag_count c"
  "n_polls (end_run r c) = n_polls c"
  "n_decodes (end_run r c) = n_decodes c"
  "n_clock_reads (end_run r c) = n_clock_reads c"
  by (simp_all add: end_run_def)

lemma compute_offset_fields [simp]:
  "is_init (compute_offset ts clk c) = is_init c"
  "has_device (compute_offset ts clk c) = has_device c"
  "has_events_stream (compute_offset ts clk c) = has_events_stream c"
  "has_device_control (compute_offset ts clk c) = has_device_control c"
  "has_decoder (compute_offset ts clk c) = has_decoder c"
  "from_file (compute_offset ts clk c) = from_file c"
  "emulate_real_time_flag (compute_offset ts clk c) = emulate_real_time_flag c"
  "joinable (compute_offset ts clk c) = joinable c"
  "pump (compute_offset ts clk c) = pump c"
  "camera_is_started (compute_offset ts clk c) = camera_is_started c"
  "is_running (compute_offset ts clk c) = is_running c"
  "run_thread_status (compute_offset ts clk c) = run_thread_status c"
  "is_recording (compute_offset ts clk c) = is_recording c"
  "status_change_callback_map (compute_offset ts clk c) = status_change_callback_map c"
  "runtime_error_callback_map (compute_offset ts clk c) = runtime_error_callback_map c"
  "raw_data_cbs (compute_offset ts clk c) = raw_data_cbs c"
  "decode_tag_count (compute_offset ts clk c) = decode_tag_count c"
  "n_polls (compute_offset ts clk c) = n_polls c"
  "n_decodes (compute_offset ts clk c) = n_decodes c"
  "n_clock_reads (compute_offset ts clk c) = n_clock_reads c"
  by (simp_all add: compute_offset_def)

lemma cadence_fields [simp]:
  "is_init (cadence ts clk c) = is_init c"
  "has_device (cadence ts clk c) = has_device c"
  "has_events_stream (cadence ts clk c) = has_events_stream c"
  "has_device_control (cadence ts clk c) = has_device_control c"
  "has_decoder (cadence ts clk c) = has_decoder c"
  "from_file (cadence ts clk c) = from_file c"
  "emulate_real_time_flag (cadence ts clk c) = emulate_real_time_flag c"
  "joinable (cadence ts clk c) = joinable c"
  "pump (cadence ts clk c) = pump c"
  "camera_is_started (cadence ts clk c) = camera_is_started c"
  "is_running (cadence ts clk c) = is_running c"
  "run_thread_status (cadence ts clk c) = run_thread_status c"
  "is_recording (cadence ts clk c) = is_recording c"
  "first_ts (cadence ts clk c) = first_ts c"
  "first_ts_clock (cadence ts clk c) = first_ts_clock c"
  "status_change_callback_map (cadence ts clk c) = status_change_callback_map c"
  "runtime_error_callback_map (cadence ts clk c) = runtime_error_callback_map c"
  "raw_data_cbs (cadence ts clk c) = raw_data_cbs c"
  "decode_tag_count (cadence ts clk c) = decode_tag_count c"
  "n_polls (cadence ts clk c) = n_polls c"
  "n_decodes (cadence ts clk c) = n_decodes c"
  "n_clock_reads (cadence ts clk c) = n_clock_reads c"
  by (simp_all add: cadence_def Let_def)

lemma emulate_iter_fields [simp]:
  "is_init (snd (emulate_iter env ev ev_end step c)) = is_init c"
  "has_device (snd (emulate_iter env ev ev_end step c)) = has_device c"
  "has_events_stream (snd (emulate_iter env ev ev_end step c)) = has_events_stream c"
  "has_device_control (snd (emulate_iter env ev ev_end step c)) = has_device_control c"
  "has_decoder (snd (emulate_iter env ev ev_end step c)) = has_decoder c"
  "from_file (snd (emulate_iter env ev ev_end step c)) = from_file c"
  "emulate_real_time_flag (snd (emulate_iter env ev ev_end step c)) = emulate_real_time_flag c"
  "joinable (snd (emulate_iter env ev ev_end step c)) = joinable c"
  "pump (snd (emulate_iter env ev ev_end step c)) = pump c"
  "camera_is_started (snd (emulate_iter env ev ev_end step c)) = camera_is_started c"
  "is_running (snd (emulate_iter env ev ev_end step c)) = is_running c"
  "run_thread_status (snd (emulate_iter env ev ev_end step c)) = run_thread_status c"
  "is_recording (snd (emulate_iter env ev ev_end step c)) = is_recording c"
  "status_change_callback_map (snd (emulate_iter env ev ev_end step c)) = status_change_callback_map c"
  "runtime_error_callback_map (snd (emulate_iter env ev ev_end step c)) = runtime_error_callback_map c"
  "raw_data_cbs (snd (emulate_iter env ev ev_end step c)) = raw_data_cbs c"
  "decode_tag_count (snd (emulate_iter env ev ev_end step c)) = decode_tag_count c"
  "n_polls (snd (emulate_iter env ev ev_end step c)) = n_polls c"
  by (simp_all add: emulate_iter_def Let_def)


lemma trace_compute_offset [simp]: "trace (compute_offset ts clk c) = trace c"
  by (simp add: compute_offset_def)

lemma trace_decode [simp]: "trace (decode b e c) = trace c @ [Decode b e]"
  by (simp add: decode_def)

lemma n_decodes_decode [simp]: "n_decodes (decode b e c) = Suc (n_decodes c)"
  by (simp add: decode_def)

lemma trace_call_raw_cbs [simp]:
  "trace (call_raw_cbs b n c) = trace c @ map (\<lambda>i. RawCallback i b n) (raw_data_cbs c)"
  by (simp add: call_raw_cbs_def)

lemma is_running_end_run [simp]: "is_running (end_run r c) = False"
  by (simp add: end_run_def)

lemma trace_cadence:
  "trace (cadence ts clk c) = trace c @
     (if clk < first_ts_clock c + scaled_diff ts (first_ts c)
      then [SleepFor (sint (first_ts_clock c + scaled_diff ts (first_ts c) - clk))] else [])"
  by (simp add: cadence_def Let_def)

lemma fst_emulate_iter:
  "fst (emulate_iter env ev ev_end step c) = ev + min ((ev_end - ev) mod 2 ^ 32) (int step)"
  by (simp add: emulate_iter_def Let_def)

lemma counters_emulate_iter [simp]:
  "n_decodes (snd (emulate_iter env ev ev_end step c)) = Suc (n_decodes c)"
  "n_clock_reads (snd (emulate_iter env ev ev_end step c)) = Suc (n_clock_reads c)"
  by (simp_all add: emulate_iter_def Let_def)

text \<open>The anchors after one turn of the emulation loop.\<close>

lemma anchors_emulate_iter:
  "first_ts_clock (snd (emulate_iter env ev ev_end step c)) =
     (if first_ts_clock c = 0 \<and> get_last_timestamp env (Suc (n_decodes c)) \<noteq> first_ts c
      then get_system_time_us env (n_clock_reads c) else first_ts_clock c)"
  "first_ts (snd (emulate_iter env ev ev_end step c)) =
     (if first_ts_clock c = 0 \<and> get_last_timestamp env (Suc (n_decodes c)) \<noteq> first_ts c
      then get_last_timestamp env (Suc (n_decodes c)) else first_ts c)"
  by (auto simp: emulate_iter_def Let_def compute_offset_def)

text \<open>What one turn of the emulation loop adds to the trace.\<close>

lemma trace_emulate_iter:
  "trace (snd (emulate_iter env ev ev_end step c)) =
     trace c @ Decode ev (fst (emulate_iter env ev ev_end step c))
       # map (\<lambda>i. RawCallback i ev (fst (emulate_iter env ev ev_end step c) - ev)) (raw_data_cbs c)
       @ pacing (first_ts_clock (snd (emulate_iter env ev ev_end step c)))
           (first_ts (snd (emulate_iter env ev ev_end step c)))
           (get_last_timestamp env (Suc (n_decodes c)))
           (get_system_time_us env (n_clock_reads c))"
  by (simp add: emulate_iter_def Let_def trace_cadence pacing_def)

section \<open>Machine arithmetic of the pacing\<close>

lemma round_to_double_exact: "\<bar>x\<bar> \<le> 2 ^ 53 \<Longrightarrow> round_to_double x = x"
  by (simp add: round_to_double_def)

lemma sint_diff_exact:
  fixes a b :: "64 word"
  assumes "\<bar>sint a - sint b\<bar> \<le> 2 ^ 53"
  shows "sint (a - b) = sint a - sint b"
proof -
  have "sint (a - b) = signed_take_bit 63 (sint a - sint b)"
    by (simp add: sint_word_ariths)
  also have "\<dots> = sint a - sint b"
    using assms by (intro signed_take_bit_int_eq_self) auto
  finally show ?thesis .
qed

lemma scaled_diff_exact:
  assumes "\<bar>sint ts - sint a\<bar> \<le> 2 ^ 53"
  shows "scaled_diff ts a = ts - a"
proof -
  have "scaled_diff ts a = word_of_int (sint (ts - a))"
    using assms by (simp only: scaled_diff_def sint_diff_exact round_to_double_exact)
  then show ?thesis by simp
qed

lemma uint_expected:
  fixes clk ts a :: "64 word"
  assumes "0 \<le> uint clk + (sint ts - sint a)" "uint clk + (sint ts - sint a) < 2 ^ 64"
  shows "uint (clk + (ts - a)) = uint clk + (sint ts - sint a)"
proof -
  have "clk + (ts - a) = word_of_int (uint clk + (sint ts - sint a))"
    by simp
  then have "uint (clk + (ts - a)) = (uint clk + (sint ts - sint a)) mod 2 ^ 64"
    by (simp only: uint_word_of_int) simp
  then show ?thesis using assms by simp
qed

lemma sint_sub_small:
  fixes x y :: "64 word"
  assumes "uint y < uint x" "uint x < 2 ^ 63"
  shows "sint (x - y) = uint x - uint y"
proof -
  have le: "y \<le> x" using assms by (simp add: word_le_def)
  have u: "uint (x - y) = uint x - uint y" using le by (simp add: uint_sub_lem word_le_def)
  have "sint (x - y) = signed_take_bit 63 (uint (x - y))"
    by (simp add: sint_uint)
  also have "\<dots> = uint x - uint y"
  proof -
    have "0 \<le> uint y" by simp
    then have "- (2 ^ 63) \<le> uint x - uint y" "uint x - uint y < 2 ^ 63"
      using assms by linarith+
    then show ?thesis unfolding u by (rule signed_take_bit_int_eq_self)
  qed
  finally show ?thesis .
qed

lemma sleeps_append [simp]: "sleeps (xs @ ys) = sleeps xs @ sleeps ys"
  by (induction xs rule: sleeps.induct) auto

lemma sleeps_raw [simp]: "sleeps (map (\<lambda>i. RawCallback i b n) xs) = []"
  by (induction xs) auto

lemma decodes_append [simp]: "decodes (xs @ ys) = decodes xs @ decodes ys"
  by (induction xs rule: decodes.induct) auto

lemma decodes_raw [simp]: "decodes (map (\<lambda>i. RawCallback i b n) xs) = []"
  by (induction xs) auto

lemma decodes_pacing [simp]: "decodes (pacing a_clk a_ts ts clk) = []"
  by (simp add: pacing_def)

text \<open>Unfolding the concrete sessions.\<close>

lemmas ex_simps = example_camera_def example_env_def emulate_iter_def Let_def decode_def call_raw_cbs_def emit_def
   compute_offset_def cadence_def scaled_diff_def new_actions_def

section \<open>Facts about the acquisition thread\<close>

lemma init_clocks_fields [simp]:
  "is_init (init_clocks env c) = is_init c"
  "has_device (init_clocks env c) = has_device c"
  "has_events_stream (init_clocks env c) = has_events_stream c"
  "has_device_control (init_clocks env c) = has_device_control c"
  "has_decoder (init_clocks env c) = has_decoder c"
  "from_file (init_clocks env c) = from_file c"
  "emulate_real_time_flag (init_clocks env c) = emulate_real_time_flag c"
  "joinable (init_clocks env c) = joinable c"
  "pump (init_clocks env c) = pump c"
  "camera_is_started (init_clocks env c) = camera_is_started c"
  "is_running (init_clocks env c) = is_running c"
  "run_thread_status (init_clocks env c) = run_thread_status c"
  "is_recording (init_clocks env c) = is_recording c"
  "status_change_callback_map (init_clocks env c) = status_change_callback_map c"
  "runtime_error_callback_map (init_clocks env c) = runtime_error_callback_map c"
  "raw_data_cbs (init_clocks env c) = raw_data_cbs c"
  "decode_tag_count (init_clocks env c) = decode_tag_count c"
  "n_polls (init_clocks env c) = n_polls c"
  "n_decodes (init_clocks env c) = n_decodes c"
  "n_clock_reads (init_clocks env c) = n_clock_reads c"
  by (simp_all add: init_clocks_def)

lemma process_buffer_fields [simp]:
  "is_init (process_buffer ev n c) = is_init c"
  "has_device (process_buffer ev n c) = has_device c"
  "has_events_stream (process_buffer ev n c) = has_events_stream c"
  "has_device_control (process_buffer ev n c) = has_device_control c"
  "has_decoder (process_buffer ev n c) = has_decoder c"
  "from_file (process_buffer ev n c) = from_file c"
  "emulate_real_time_flag (process_buffer ev n c) = emulate_real_time_flag c"
  "joinable (process_buffer ev n c) = joinable c"
  "pump (process_buffer ev n c) = pump c"
  "camera_is_started (process_buffer ev n c) = camera_is_started c"
  "is_running (process_buffer ev n c) = is_running c"
  "run_thread_status (process_buffer ev n c) = run_thread_status c"
  "is_recording (process_buffer ev n c) = is_recording c"
  "first_ts (process_buffer ev n c) = first_ts c"
  "first_ts_clock (process_buffer ev n c) = first_ts_clock c"
  "status_change_callback_map (process_buffer ev n c) = status_change_callback_map c"
  "runtime_error_callback_map (process_buffer ev n c) = runtime_error_callback_map c"
  "raw_data_cbs (process_buffer ev n c) = raw_data_cbs c"
  "decode_tag_count (process_buffer ev n c) = decode_tag_count c"
  "n_polls (process_buffer ev n c) = n_polls c"
  "n_clock_reads (process_buffer ev n c) = n_clock_reads c"
  by (simp_all add: process_buffer_def)

lemma run_finish_static [simp]:
  "is_init (run_finish res c) = is_init c"
  "has_device (run_finish res c) = has_device c"
  "has_events_stream (run_finish res c) = has_events_stream c"
  "has_device_control (run_finish res c) = has_device_control c"
  "has_decoder (run_finish res c) = has_decoder c"
  "from_file (run_finish res c) = from_file c"
  "emulate_real_time_flag (run_finish res c) = emulate_real_time_flag c"
  "joinable (run_finish res c) = joinable c"
  "is_recording (run_finish res c) = is_recording c"
  "status_change_callback_map (run_finish res c) = status_change_callback_map c"
  "runtime_error_callback_map (run_finish res c) = runtime_error_callback_map c"
  "raw_data_cbs (run_finish res c) = raw_data_cbs c"
  "decode_tag_count (run_finish res c) = decode_tag_count c"
  "n_polls (run_finish res c) = n_polls c"
  "n_decodes (run_finish res c) = n_decodes c"
  "n_clock_reads (run_finish res c) = n_clock_reads c"
  "first_ts (run_finish res c) = first_ts c"
  "first_ts_clock (run_finish res c) = first_ts_clock c"
  "camera_is_started (run_finish res c) = camera_is_started c"
  "run_thread_status (run_finish res c) = run_thread_status c"
  by (simp_all add: run_finish_def)

lemma run_begin_static [simp]:
  "is_init (run_begin env c) = is_init c"
  "has_device (run_begin env c) = has_device c"
  "has_events_stream (run_begin env c) = has_events_stream c"
  "has_device_control (run_begin env c) = has_device_control c"
  "has_decoder (run_begin env c) = has_decoder c"
  "from_file (run_begin env c) = from_file c"
  "emulate_real_time_flag (run_begin env c) = emulate_real_time_flag c"
  "joinable (run_begin env c) = joinable c"
  "is_recording (run_begin env c) = is_recording c"
  "status_change_callback_map (run_begin env c) = status_change_callback_map c"
  "runtime_error_callback_map (run_begin env c) = runtime_error_callback_map c"
  "raw_data_cbs (run_begin env c) = raw_data_cbs c"
  "decode_tag_count (run_begin env c) = decode_tag_count c"
  by (simp_all add: run_begin_def run_from_file_begin_def run_from_camera_begin_def run_main_loop_begin_def Let_def split: option.splits)

lemma run_main_loop_iter_static [simp]:
  "is_init (run_main_loop_iter env res c) = is_init c"
  "has_device (run_main_loop_iter env res c) = has_device c"
  "has_events_stream (run_main_loop_iter env res c) = has_events_stream c"
  "has_device_control (run_main_loop_iter env res c) = has_device_control c"
  "has_decoder (run_main_loop_iter env res c) = has_decoder c"
  "from_file (run_main_loop_iter env res c) = from_file c"
  "emulate_real_time_flag (run_main_loop_iter env res c) = emulate_real_time_flag c"
  "joinable (run_main_loop_iter env res c) = joinable c"
  "is_recording (run_main_loop_iter env res c) = is_recording c"
  "status_change_callback_map (run_main_loop_iter env res c) = status_change_callback_map c"
  "runtime_error_callback_map (run_main_loop_iter env res c) = runtime_error_callback_map c"
  "raw_data_cbs (run_main_loop_iter env res c) = raw_data_cbs c"
  "decode_tag_count (run_main_loop_iter env res c) = decode_tag_count c"
  by (simp_all add: run_main_loop_iter_def Let_def case_prod_beta)

lemma emulate_step_static [simp]:
  "is_init (emulate_step env res ev ev_end step c) = is_init c"
  "has_device (emulate_step env res ev ev_end step c) = has_device c"
  "has_events_stream (emulate_step env res ev ev_end step c) = has_events_stream c"
  "has_device_control (emulate_step env res ev ev_end step c) = has_device_control c"
  "has_decoder (emulate_step env res ev ev_end step c) = has_decoder c"
  "from_file (emulate_step env res ev ev_end step c) = from_file c"
  "emulate_real_time_flag (emulate_step env res ev ev_end step c) = emulate_real_time_flag c"
  "joinable (emulate_step env res ev ev_end step c) = joinable c"
  "is_recording (emulate_step env res ev ev_end step c) = is_recording c"
  "status_change_callback_map (emulate_step env res ev ev_end step c) = status_change_callback_map c"
  "runtime_error_callback_map (emulate_step env res ev ev_end step c) = runtime_error_callback_map c"
  "raw_data_cbs (emulate_step env res ev ev_end step c) = raw_data_cbs c"
  "decode_tag_count (emulate_step env res ev ev_end step c) = decode_tag_count c"
  by (simp_all add: emulate_step_def case_prod_beta)

lemma pump_step_static [simp]:
  "is_init (pump_step env c) = is_init c"
  "has_device (pump_step env c) = has_device c"
  "has_events_stream (pump_step env c) = has_events_stream c"
  "has_device_control (pump_step env c) = has_device_control c"
  "has_decoder (pump_step env c) = has_decoder c"
  "from_file (pump_step env c) = from_file c"
  "emulate_real_time_flag (pump_step env c) = emulate_real_time_flag c"
  "joinable (pump_step env c) = joinable c"
  "is_recording (pump_step env c) = is_recording c"
  "status_change_callback_map (pump_step env c) = status_change_callback_map c"
  "runtime_error_callback_map (pump_step env c) = runtime_error_callback_map c"
  "raw_data_cbs (pump_step env c) = raw_data_cbs c"
  "decode_tag_count (pump_step env c) = decode_tag_count c"
  by (simp_all split: pump_pc.splits)


declare pump_step.simps [simp del]

lemma pump_action_set_is_running:
  "\<exists>evs. trace (set_is_running b c) = trace c @ evs \<and> (\<forall>a\<in>set evs. pump_action a)"
  by (auto simp: trace_set_is_running)

lemma run_output_of_not_failure: "run_output_of res \<noteq> - 1"
  by (simp add: run_output_of_def)

lemma trace_end_run_pump:
  "trace (end_run (run_output_of res) c) = trace (set_is_running False c)"
  by (simp add: end_run_def run_output_of_not_failure)

lemma pump_action_run_finish:
  "\<exists>evs. trace (run_finish res c) = trace c @ evs \<and> (\<forall>a\<in>set evs. pump_action a)"
  using pump_action_set_is_running [of False c]
  by (simp add: run_finish_def trace_end_run_pump)

lemma pump_action_run_begin:
  "\<exists>evs. trace (run_begin env c) = trace c @ evs \<and> (\<forall>a\<in>set evs. pump_action a)"
  by (simp add: run_begin_def run_from_file_begin_def run_from_camera_begin_def
        run_main_loop_begin_def init_clocks_def Let_def split: option.splits)

lemma pump_action_emulate_iter:
  "\<exists>evs. trace (snd (emulate_iter env ev ev_end step c)) = trace c @ evs
       \<and> (\<forall>a\<in>set evs. pump_action a)"
  unfolding trace_emulate_iter by (auto simp: pacing_def)

lemma pump_action_emulate_step:
  "\<exists>evs. trace (emulate_step env res ev ev_end step c) = trace c @ evs
       \<and> (\<forall>a\<in>set evs. pump_action a)"
  using pump_action_emulate_iter [of env ev ev_end step c]
  by (simp add: emulate_step_def case_prod_beta)

lemma pump_action_run_main_loop_iter:
  "\<exists>evs. trace (run_main_loop_iter env res c) = trace c @ evs \<and> (\<forall>a\<in>set evs. pump_action a)"
proof (cases "is_running c")
  case False
  then show ?thesis using pump_action_run_finish [of res c] by (simp add: run_main_loop_iter_def)
next
  case True
  let ?r = "wait_next_buffer env (n_polls c)"
  let ?c1 = "(emit [WaitNextBuffer ?r] c)\<lparr>n_polls := Suc (n_polls c)\<rparr>"
  show ?thesis
  proof (cases "?r < 0")
    case neg: True
    obtain evs where "trace (run_finish ?r ?c1) = trace ?c1 @ evs" "\<forall>a\<in>set evs. pump_action a"
      using pump_action_run_finish by blast
    then have "trace (run_finish ?r ?c1) = trace c @ (WaitNextBuffer ?r # evs)"
        "\<forall>a\<in>set (WaitNextBuffer ?r # evs). pump_action a"
      by simp_all
    moreover have "run_main_loop_iter env res c = run_finish ?r ?c1"
      using True neg by (simp add: run_main_loop_iter_def Let_def)
    ultimately show ?thesis by metis
  next
    case nonneg: False
    show ?thesis
      using True nonneg
      by (auto simp: run_main_loop_iter_def Let_def process_buffer_def case_prod_beta)
  qed
qed

lemma pump_action_pump_step:
  "\<exists>evs. trace (pump_step env c) = trace c @ evs \<and> (\<forall>a\<in>set evs. pump_action a)"
  using pump_action_run_begin [of env c] pump_action_run_main_loop_iter [of env _ c]
    pump_action_emulate_step [of env _ _ _ _ c]
  by (cases "pump c") (simp_all add: pump_step.simps)

lemma not_running_pump_step: "\<not> is_running c \<Longrightarrow> \<not> is_running (pump_step env c)"
  by (cases "pump c")
     (simp_all add: pump_step.simps run_begin_def run_from_file_begin_def run_from_camera_begin_def
        run_main_loop_begin_def init_clocks_def run_main_loop_iter_def run_finish_def
        emulate_step_def emulate_cond_def Let_def split: option.splits)

text \<open>Unfolding one step of the thread.\<close>

lemmas pump_simps = pump_step.simps run_begin_def run_from_file_begin_def run_from_camera_begin_def
  run_main_loop_begin_def init_clocks_def run_main_loop_iter_def run_finish_def end_run_def
  run_output_of_def emulate_step_def emulate_cond_def check_initialization_def
  check_camera_device_instance_def check_events_stream_instance_def
  check_decoder_device_instance_def check_ccam_instance_def
  set_is_running_def set_is_running_test_def set_is_running_body_def

section \<open>Waiting for the acquisition thread\<close>

lemma funpow_pump_static [simp]:
  "is_init ((pump_step env ^^ k) c) = is_init c"
  "has_device ((pump_step env ^^ k) c) = has_device c"
  "has_events_stream ((pump_step env ^^ k) c) = has_events_stream c"
  "has_device_control ((pump_step env ^^ k) c) = has_device_control c"
  "has_decoder ((pump_step env ^^ k) c) = has_decoder c"
  "from_file ((pump_step env ^^ k) c) = from_file c"
  "emulate_real_time_flag ((pump_step env ^^ k) c) = emulate_real_time_flag c"
  "joinable ((pump_step env ^^ k) c) = joinable c"
  "is_recording ((pump_step env ^^ k) c) = is_recording c"
  "status_change_callback_map ((pump_step env ^^ k) c) = status_change_callback_map c"
  "runtime_error_callback_map ((pump_step env ^^ k) c) = runtime_error_callback_map c"
  "raw_data_cbs ((pump_step env ^^ k) c) = raw_data_cbs c"
  "decode_tag_count ((pump_step env ^^ k) c) = decode_tag_count c"
  by (induction k) simp_all


lemma funpow_pump_trace:
  "\<exists>evs. trace ((pump_step env ^^ k) c) = trace c @ evs \<and> (\<forall>a\<in>set evs. pump_action a)"
proof (induction k)
  case 0
  then show ?case by simp
next
  case (Suc k)
  then obtain evs where e: "trace ((pump_step env ^^ k) c) = trace c @ evs"
    and p: "\<forall>a\<in>set evs. pump_action a" by blast
  obtain evs' where e': "trace (pump_step env ((pump_step env ^^ k) c)) = trace ((pump_step env ^^ k) c) @ evs'"
    and p': "\<forall>a\<in>set evs'. pump_action a"
    using pump_action_pump_step by blast
  have "trace ((pump_step env ^^ Suc k) c) = trace c @ (evs @ evs')" using e e' by simp
  moreover have "\<forall>a\<in>set (evs @ evs'). pump_action a" using p p' by auto
  ultimately show ?case by blast
qed

lemma funpow_pump_not_running:
  "\<not> is_running c \<Longrightarrow> \<not> is_running ((pump_step env ^^ k) c)"
  by (induction k) (simp_all add: not_running_pump_step)

lemma funpow_Suc_shift: "(f ^^ k) (f x) = (f ^^ Suc k) x"
  by (simp add: funpow_swap1)

lemma wait_running_steps:
  "wait_running fuel env c = Some c' \<Longrightarrow>
     (\<exists>k. c' = (pump_step env ^^ k) c) \<and> run_thread_status c' = RunThread_RUNNING"
proof (induction fuel arbitrary: c)
  case 0
  then show ?case by (auto split: if_splits intro: exI [of _ 0])
next
  case (Suc n)
  show ?case
  proof (cases "run_thread_status c = RunThread_RUNNING")
    case True
    then show ?thesis using Suc.prems by (auto intro: exI [of _ 0])
  next
    case False
    then have "wait_running n env (pump_step env c) = Some c'" using Suc.prems by simp
    from Suc.IH [OF this] obtain k where "c' = (pump_step env ^^ k) (pump_step env c)"
      and r: "run_thread_status c' = RunThread_RUNNING" by blast
    then have "c' = (pump_step env ^^ Suc k) c" by (simp only: funpow_Suc_shift)
    then show ?thesis using r by blast
  qed
qed

lemma pump_run_steps:
  "pump_run fuel env c = Some c' \<Longrightarrow> (\<exists>k. c' = (pump_step env ^^ k) c) \<and> pump c' = Finished"
proof (induction fuel arbitrary: c)
  case 0
  then show ?case by (auto split: if_splits intro: exI [of _ 0])
next
  case (Suc n)
  show ?case
  proof (cases "pump c = Finished")
    case True
    then show ?thesis using Suc.prems by (auto intro: exI [of _ 0])
  next
    case False
    then have "pump_run n env (pump_step env c) = Some c'"
      using Suc.prems by (simp split: if_splits)
    from Suc.IH [OF this] obtain k where "c' = (pump_step env ^^ k) (pump_step env c)"
      and r: "pump c' = Finished" by blast
    then have "c' = (pump_step env ^^ Suc k) c" by (simp only: funpow_Suc_shift)
    then show ?thesis using r by blast
  qed
qed

lemma wait_camera_is_started_steps:
  "wait_camera_is_started fuel env c = Some c' \<Longrightarrow>
     (\<exists>k. c' = (pump_step env ^^ k) c) \<and> camera_is_started c'"
proof (induction fuel arbitrary: c)
  case 0
  then show ?case by (auto split: if_splits intro: exI [of _ 0])
next
  case (Suc n)
  show ?case
  proof (cases "camera_is_started c")
    case True
    then show ?thesis using Suc.prems by (auto intro: exI [of _ 0])
  next
    case False
    then have "wait_camera_is_started n env (pump_step env c) = Some c'" using Suc.prems by simp
    from Suc.IH [OF this] obtain k where "c' = (pump_step env ^^ k) (pump_step env c)"
      and r: "camera_is_started c'" by blast
    then have "c' = (pump_step env ^^ Suc k) c" by (simp only: funpow_Suc_shift)
    then show ?thesis using r by blast
  qed
qed

text \<open>What a call of \<open>stop\<close> on an initialized session with a thread does, when it returns.\<close>

lemma stop_returns_true:
  assumes s: "stop fuel env c = Some r" and i: "is_init c" and j: "joinable c"
  shows "\<exists>c' evs. r = Returns True c'
      \<and> trace c' = trace c @ evs @ [ThreadJoin, StopLogRawData]
      \<and> (\<forall>a\<in>set evs. pump_action a \<or> a = EventsStreamStop \<or> a = DeviceControlStop)
      \<and> pump c' = NoThread \<and> \<not> joinable c' \<and> \<not> is_recording c' \<and> \<not> is_running c'
      \<and> is_init c' \<and> has_events_stream c'"
proof -
  from s i j obtain c1 where w: "wait_running fuel env c = Some c1"
    by (auto simp: stop_def check_initialization_def split: option.splits)
  from s i j w obtain c2 where q: "stop_request c1 = Some c2"
    by (auto simp: stop_def check_initialization_def split: option.splits)
  from s i j w q obtain c3 where jn: "join fuel env c2 = Some c3"
    by (auto simp: stop_def check_initialization_def split: option.splits)
  from s i j w q jn have r: "r = (case stop_recording c3 of Throws e c4 \<Rightarrow> Throws e c4
                                  | Returns u c4 \<Rightarrow> Returns True c4)"
    by (auto simp: stop_def check_initialization_def split: result.splits)
  from wait_running_steps [OF w] obtain k1 where c1: "c1 = (pump_step env ^^ k1) c" by blast
  obtain e1 where t1: "trace c1 = trace c @ e1" and p1: "\<forall>a\<in>set e1. pump_action a"
    using funpow_pump_trace [where env = env and k = k1 and c = c] c1 by blast
  have i1: "is_init c1" using i c1 by simp
  let ?c1' = "set_is_running False (c1\<lparr>run_thread_status := RunThread_STOPPED\<rparr>)"
  have hs: "has_events_stream c1" using q by (auto simp: stop_request_def Let_def split: if_splits)
  have c2: "c2 = emit (if has_device_control c1 then [EventsStreamStop, DeviceControlStop]
                       else [EventsStreamStop]) ?c1'"
    using q by (auto simp: stop_request_def Let_def split: if_splits)
  obtain e2' where t2': "trace ?c1' = trace c1 @ e2'" and p2': "\<forall>a\<in>set e2'. pump_action a"
    using pump_action_set_is_running [of False "c1\<lparr>run_thread_status := RunThread_STOPPED\<rparr>"]
    by auto
  define e2 where "e2 = e2' @ (if has_device_control c1 then [EventsStreamStop, DeviceControlStop]
                       else [EventsStreamStop])"
  have t2: "trace c2 = trace c1 @ e2" unfolding c2 e2_def using t2' by simp
  have p2: "\<forall>a\<in>set e2. pump_action a \<or> a = EventsStreamStop \<or> a = DeviceControlStop"
    unfolding e2_def using p2' by auto
  have r2: "\<not> is_running c2" "is_init c2" "has_events_stream c2"
    unfolding c2 using i1 hs by simp_all
  from jn obtain c2' where pr: "pump_run fuel env c2 = Some c2'"
    and c3: "c3 = (emit [ThreadJoin] c2')\<lparr>joinable := False, pump := NoThread\<rparr>"
    by (auto simp: join_def split: option.splits)
  from pump_run_steps [OF pr] obtain k2 where c2': "c2' = (pump_step env ^^ k2) c2" by blast
  obtain e3 where t3: "trace c2' = trace c2 @ e3" and p3: "\<forall>a\<in>set e3. pump_action a"
    using funpow_pump_trace [where env = env and k = k2 and c = c2] c2' by blast
  have r3: "\<not> is_running c2'" "is_init c2'" "has_events_stream c2'"
    using r2 c2' by (simp_all add: funpow_pump_not_running)
  have sr: "stop_recording c3 = Returns () ((emit [StopLogRawData] c3)\<lparr>is_recording := False\<rparr>)"
    unfolding c3 using r3
    by (simp add: stop_recording_def check_events_stream_instance_def check_initialization_def)
  let ?c4 = "(emit [StopLogRawData] c3)\<lparr>is_recording := False\<rparr>"
  have res: "r = Returns True ?c4" using r sr by simp
  have tr: "trace ?c4 = trace c @ (e1 @ e2 @ e3) @ [ThreadJoin, StopLogRawData]"
    unfolding c3 using t1 t2 t3 by simp
  have pa: "\<forall>a\<in>set (e1 @ e2 @ e3). pump_action a \<or> a = EventsStreamStop \<or> a = DeviceControlStop"
    using p1 p2 p3 by auto
  have fin: "pump ?c4 = NoThread" "\<not> joinable ?c4" "\<not> is_recording ?c4" "\<not> is_running ?c4"
      "is_init ?c4" "has_events_stream ?c4"
    unfolding c3 using r3 by simp_all
  show ?thesis using res tr pa fin by blast
qed

lemma pump_run_finished: "pump c = Finished \<Longrightarrow> pump_run k env c = Some c"
  by (cases k) simp_all

lemma wait_camera_is_started_done:
  "camera_is_started c \<Longrightarrow> wait_camera_is_started k env c = Some c"
  by (cases k) simp_all

lemma wait_running_done:
  "run_thread_status c = RunThread_RUNNING \<Longrightarrow> wait_running k env c = Some c"
  by (cases k) simp_all

lemma pump_run_after_stop:
  assumes r: "\<not> is_running c"
    and p: "pump c = Finished \<or> (\<exists>res. pump c = AtMainLoop res)
              \<or> (\<exists>res ev ev_end step. pump c = AtEmulate res ev ev_end step)"
  shows "\<exists>c'. pump_run (Suc (Suc fuel)) env c = Some c'"
proof -
  have main: "\<exists>c'. pump_run (Suc k) env d = Some c'"
    if "\<not> is_running d" "pump d = AtMainLoop res" for d res k
  proof -
    have "pump (pump_step env d) = Finished"
      using that by (simp add: pump_step.simps run_main_loop_iter_def run_finish_def)
    then show ?thesis using that pump_run_finished [of "pump_step env d" k env] by simp
  qed
  from p consider "pump c = Finished" | res where "pump c = AtMainLoop res"
    | res ev ev_end step where "pump c = AtEmulate res ev ev_end step" by blast
  then show ?thesis
  proof cases
    case 1
    then show ?thesis by (simp add: pump_run_finished)
  next
    case 2
    then show ?thesis using main [OF r] by blast
  next
    case 3
    have s: "pump_step env c = c\<lparr>pump := AtMainLoop res\<rparr>"
      using 3 r by (simp add: pump_step.simps emulate_step_def emulate_cond_def)
    have "\<exists>c'. pump_run (Suc fuel) env (pump_step env c) = Some c'"
      using main [of "pump_step env c" res fuel] r unfolding s by simp
    then show ?thesis using 3 by simp
  qed
qed

text \<open>A call of \<open>stop\<close> on a session whose thread has begun returns.\<close>

lemma stop_returns:
  assumes "is_init c" "joinable c" "has_events_stream c"
    and "run_thread_status c = RunThread_RUNNING"
    and p: "pump c = Finished \<or> (\<exists>res. pump c = AtMainLoop res)
              \<or> (\<exists>res ev ev_end step. pump c = AtEmulate res ev ev_end step)"
  shows "\<exists>c'. stop (Suc (Suc fuel)) env c = Some (Returns True c')"
proof -
  have w: "wait_running (Suc (Suc fuel)) env c = Some c"
    using assms by (simp add: wait_running_done)
  obtain c2 where q: "stop_request c = Some c2" and r2: "\<not> is_running c2" and p2: "pump c2 = pump c"
    using assms by (simp add: stop_request_def Let_def)
  obtain c2' where pr: "pump_run (Suc (Suc fuel)) env c2 = Some c2'"
    using pump_run_after_stop [OF r2, of fuel env] p unfolding p2 by blast
  then obtain c3 where j: "join (Suc (Suc fuel)) env c2 = Some c3"
    by (simp add: join_def)
  have "stop (Suc (Suc fuel)) env c \<noteq> None"
    using assms w q j
    by (simp add: stop_def check_initialization_def split: result.splits)
  then obtain r where s: "stop (Suc (Suc fuel)) env c = Some r" by auto
  from stop_returns_true [OF s assms(1,2)] show ?thesis using s by auto
qed

section \<open>Status-change notifications\<close>

text \<open>
  A call of \<^verbatim>\<open>set_is_running\<close> that no other call overlaps calls every registered
  status-change callback exactly once when the value of \<^verbatim>\<open>is_running_\<close> changes, with
  \<^verbatim>\<open>STARTED\<close> on the change to true and \<^verbatim>\<open>STOPPED\<close> on the change to false, and
  calls nothing when the value is the one already held.
\<close>

lemma status_change_sequential:
  "trace (set_is_running b c) = trace c @ new_actions c (set_is_running b c)
   \<and> is_running (set_is_running b c) = b
   \<and> count_list (new_actions c (set_is_running b c)) (StatusChangeCallback i s) =
       (if is_running c \<noteq> b \<and> i |\<in>| status_change_callback_map c
           \<and> s = (if b then CameraStatus_STARTED else CameraStatus_STOPPED)
        then 1 else 0)
   \<and> length (new_actions c (set_is_running b c)) =
       (if is_running c \<noteq> b then fcard (status_change_callback_map c) else 0)"
proof -
  let ?f = "\<lambda>i. StatusChangeCallback i (if b then CameraStatus_STARTED else CameraStatus_STOPPED)"
  let ?xs = "sorted_list_of_fset (status_change_callback_map c)"
  have d: "distinct (map ?f ?xs)"
    by (simp add: distinct_map inj_on_def sorted_list_of_fset.rep_eq)
  have n: "new_actions c (set_is_running b c) = (if is_running c \<noteq> b then map ?f ?xs else [])"
    by (rule new_actions_append) (simp add: trace_set_is_running)
  have cnt: "count_list (map ?f ?xs) (StatusChangeCallback i s) =
      (if i |\<in>| status_change_callback_map c
           \<and> s = (if b then CameraStatus_STARTED else CameraStatus_STOPPED) then 1 else 0)"
    unfolding count_list_distinct [OF d] by (auto simp: image_iff)
  have len: "length ?xs = fcard (status_change_callback_map c)"
    by (simp add: sorted_list_of_fset.rep_eq fcard.rep_eq)
  have t: "trace (set_is_running b c) = trace c @ new_actions c (set_is_running b c)"
    unfolding n by (simp add: trace_set_is_running)
  show ?thesis
    using t cnt len unfolding n by simp
qed

text \<open>
  C3 fails on the code. The test and the store of \<^verbatim>\<open>is_running_\<close> are under no lock,
  and \<^verbatim>\<open>set_is_running(false)\<close> is called by \<^verbatim>\<open>stop\<close> on the caller's thread and by
  \<^verbatim>\<open>end_run\<close> on the acquisition thread. On a running session with callback 1
  registered, when the two calls overlap and both make their test before either has
  stored, the callback is called with \<^verbatim>\<open>STOPPED\<close> twice for the one change from true to
  false.
\<close>

theorem status_change_notified_twice:
  "is_running (example_camera\<lparr>is_running := True\<rparr>)
   \<and> set_is_running_test False (example_camera\<lparr>is_running := True\<rparr>)
   \<and> \<not> is_running (set_is_running_overlapped False (example_camera\<lparr>is_running := True\<rparr>))
   \<and> new_actions (example_camera\<lparr>is_running := True\<rparr>)
         (set_is_running_overlapped False (example_camera\<lparr>is_running := True\<rparr>))
       = [StatusChangeCallback 1 CameraStatus_STOPPED, StatusChangeCallback 1 CameraStatus_STOPPED]
   \<and> new_actions (example_camera\<lparr>is_running := True\<rparr>)
         (set_is_running False (set_is_running False (example_camera\<lparr>is_running := True\<rparr>)))
       = [StatusChangeCallback 1 CameraStatus_STOPPED]"
  by (simp add: set_is_running_overlapped_def set_is_running_def set_is_running_test_def
        set_is_running_body_def new_actions_def example_camera_def emit_def
        sorted_list_of_fset.rep_eq)

section \<open>Decoding comes before the raw callbacks\<close>



section \<open>The sub-buffers of the real-time emulation\<close>

lemma chunk_count_less:
  fixes S N i :: nat
  assumes "0 < S"
  shows "(i < (N + S - 1) div S) = (i * S < N)"
proof -
  have "(i < (N + S - 1) div S) = (Suc i \<le> (N + S - 1) div S)" by auto
  also have "\<dots> = (Suc i * S \<le> N + S - 1)"
    using assms by (simp add: less_eq_div_iff_mult_less_eq)
  also have "\<dots> = (i * S < N)" using assms by auto
  finally show ?thesis .
qed

lemma emulate_loop_sub_buffers:
  assumes S: "0 < step" and n0: "0 \<le> n" and n32: "n < 2 ^ 32"
  shows "is_running c \<Longrightarrow> i \<le> (nat n + step - 1) div step
     \<Longrightarrow> (nat n + step - 1) div step - i \<le> fuel
     \<Longrightarrow> \<exists>c' evs. emulate_loop fuel env (ev + min n (int (i * step))) (ev + n) step c = Some c'
            \<and> trace c' = trace c @ evs
            \<and> decodes evs =
                map (\<lambda>i. (ev + int (i * step), ev + min n (int (Suc i * step))))
                  [i..<(nat n + step - 1) div step]"
proof (induction "(nat n + step - 1) div step - i" arbitrary: i fuel c)
  case 0
  then have i: "i = (nat n + step - 1) div step" by simp
  have "\<not> i * step < nat n" using chunk_count_less [OF S, of i "nat n"] i by simp
  then have "n \<le> int (i * step)" using n0 by linarith
  then have "\<not> emulate_cond (ev + min n (int (i * step))) (ev + n) c"
    by (simp add: emulate_cond_def)
  then have "emulate_loop fuel env (ev + min n (int (i * step))) (ev + n) step c = Some c"
    by (cases fuel) simp_all
  then show ?case using i by simp
next
  case (Suc k)
  let ?m = "(nat n + step - 1) div step"
  let ?f = "\<lambda>i. (ev + int (i * step), ev + min n (int (Suc i * step)))"
  from Suc.hyps(2) have im: "i < ?m" by simp
  then have lt: "i * step < nat n" using chunk_count_less [OF S, of i "nat n"] by simp
  then have lt': "int (i * step) < n" using n0 by linarith
  from Suc.hyps(2) Suc.prems(3) obtain fuel' where fuel: "fuel = Suc fuel'" and f': "?m - Suc i \<le> fuel'"
    by (cases fuel) auto
  let ?pos = "ev + int (i * step)"
  have pos: "ev + min n (int (i * step)) = ?pos" using lt' by simp
  have cond: "emulate_cond ?pos (ev + n) c"
    using lt' Suc.prems(1) by (simp add: emulate_cond_def)
  have rem: "(ev + n - ?pos) mod 2 ^ 32 = n - int (i * step)"
  proof -
    have "(0::int) \<le> int (i * step)" by (rule of_nat_0_le_iff)
    then have "0 \<le> n - int (i * step)" "n - int (i * step) < 2 ^ 32"
      using lt' n32 by linarith+
    then have "(n - int (i * step)) mod 2 ^ 32 = n - int (i * step)"
      by (rule mod_pos_pos_trivial)
    then show ?thesis by simp
  qed
  let ?c1 = "snd (emulate_iter env ?pos (ev + n) step c)"
  have nxt: "fst (emulate_iter env ?pos (ev + n) step c) = ev + min n (int (Suc i * step))"
    unfolding fst_emulate_iter rem by (simp add: min_def algebra_simps)
  have run1: "is_running ?c1" using Suc.prems(1) by simp
  have k: "k = ?m - Suc i" using Suc.hyps(2) by simp
  from Suc.hyps(1) [OF k run1 _ f', of ] im
  obtain c' evs where l: "emulate_loop fuel' env (ev + min n (int (Suc i * step))) (ev + n) step ?c1 = Some c'"
    and t: "trace c' = trace ?c1 @ evs"
    and dc: "decodes evs = map ?f [Suc i..<?m]"
    by auto
  have loop: "emulate_loop fuel env (ev + min n (int (i * step))) (ev + n) step c = Some c'"
    unfolding pos fuel using cond l nxt
    by (simp add: case_prod_beta)
  obtain evs1 where t1: "trace ?c1 = trace c @ evs1" and d1: "decodes evs1 = [?f i]"
    using trace_emulate_iter [of env ?pos "ev + n" step c] unfolding nxt by simp
  have "[i..<?m] = i # [Suc i..<?m]" using im by (simp add: upt_conv_Cons)
  then have "decodes (evs1 @ evs) = map ?f [i..<?m]"
    using d1 dc by simp
  moreover have "trace c' = trace c @ (evs1 @ evs)"
    using t t1 by simp
  ultimately show ?case using loop by blast
qed

text \<open>
  C5 (as amended). A buffer of \<open>n\<close> bytes with \<open>0 \<le> n < 2 ^ 32\<close>, handed to the
  emulation while \<^verbatim>\<open>is_running_\<close> holds, with a raw event size \<open>s\<close> such that
  \<open>1024 * s < 2 ^ 32\<close>, is decoded in consecutive sub-buffers of exactly
  \<open>max 128 (1024 * s)\<close> bytes each, except a last one that may be shorter (never empty);
  the loop ends after that many turns. For \<open>s > 0\<close> a full sub-buffer is \<open>1024 * s\<close>
  bytes, that is 1024 events.
\<close>

theorem emulation_sub_buffer_sizes:
  assumes n0: "0 \<le> n" and n32: "n < 2 ^ 32"
    and s: "get_raw_event_size_bytes env * 1024 < 2 ^ 32"
    and run: "is_running c"
    and fuel: "(nat n + max 128 (get_raw_event_size_bytes env * 1024) - 1)
                 div max 128 (get_raw_event_size_bytes env * 1024) \<le> fuel"
  shows "\<exists>c'. emulate_real_time fuel env ev n c = Some c'
      \<and> trace c' = trace c @ new_actions c c'
      \<and> decodes (new_actions c c') = sub_buffers ev n (max 128 (get_raw_event_size_bytes env * 1024))
      \<and> (\<forall>i<length (decodes (new_actions c c')).
            0 < snd (decodes (new_actions c c') ! i) - fst (decodes (new_actions c c') ! i)
            \<and> snd (decodes (new_actions c c') ! i) - fst (decodes (new_actions c c') ! i)
                \<le> int (max 128 (get_raw_event_size_bytes env * 1024))
            \<and> (Suc i < length (decodes (new_actions c c')) \<longrightarrow>
                 snd (decodes (new_actions c c') ! i) - fst (decodes (new_actions c c') ! i)
                   = int (max 128 (get_raw_event_size_bytes env * 1024))))
      \<and> (0 < get_raw_event_size_bytes env \<longrightarrow>
            max 128 (get_raw_event_size_bytes env * 1024) = 1024 * get_raw_event_size_bytes env)"
proof -
  let ?S = "max 128 (get_raw_event_size_bytes env * 1024)"
  let ?m = "(nat n + ?S - 1) div ?S"
  have S: "0 < ?S" by simp
  have st: "bytes_step_to_decode (get_raw_event_size_bytes env) = ?S"
    using s by (simp add: bytes_step_to_decode_def)
  from emulate_loop_sub_buffers [OF S n0 n32 run, of 0 fuel env ev] fuel
  obtain c' evs where l: "emulate_loop fuel env ev (ev + n) ?S c = Some c'"
    and t: "trace c' = trace c @ evs"
    and dc: "decodes evs = sub_buffers ev n ?S"
    using n0 by (auto simp: sub_buffers_def)
  have na: "new_actions c c' = evs" using t by (rule new_actions_append)
  have sizes: "0 < snd (sub_buffers ev n ?S ! i) - fst (sub_buffers ev n ?S ! i)
            \<and> snd (sub_buffers ev n ?S ! i) - fst (sub_buffers ev n ?S ! i) \<le> int ?S
            \<and> (Suc i < length (sub_buffers ev n ?S) \<longrightarrow>
                 snd (sub_buffers ev n ?S ! i) - fst (sub_buffers ev n ?S ! i) = int ?S)"
    if i: "i < length (sub_buffers ev n ?S)" for i
  proof -
    have im: "i < ?m" using i by (simp add: sub_buffers_def)
    then have "i * ?S < nat n" using chunk_count_less [OF S, of i "nat n"] by simp
    then have lt: "int (i * ?S) < n" using n0 by linarith
    have el: "sub_buffers ev n ?S ! i = (ev + int (i * ?S), ev + min n (int (Suc i * ?S)))"
      using im by (simp add: sub_buffers_def)
    have e2: "int (Suc i * ?S) = int (i * ?S) + int ?S" by (simp add: algebra_simps)
    have full: "int (Suc i * ?S) \<le> n" if "Suc i < length (sub_buffers ev n ?S)"
    proof -
      have "Suc i < ?m" using that by (simp add: sub_buffers_def)
      then have "Suc i * ?S < nat n" using chunk_count_less [OF S, of "Suc i" "nat n"] by simp
      then show ?thesis using n0 by linarith
    qed
    show ?thesis
      unfolding el fst_conv snd_conv e2 using lt full e2 S
      by (auto simp: min_def)
  qed
  have "emulate_real_time fuel env ev n c = Some c'"
    using l by (simp add: emulate_real_time_def st)
  moreover have "trace c' = trace c @ new_actions c c'" using t na by simp
  moreover have "decodes (new_actions c c') = sub_buffers ev n ?S" using dc na by simp
  moreover have "0 < get_raw_event_size_bytes env \<longrightarrow> ?S = 1024 * get_raw_event_size_bytes env"
    by auto
  ultimately show ?thesis using sizes by (metis (no_types, lifting))
qed

theorem emulation_sub_buffer_sizes_witness:
  "\<exists>c'. emulate_real_time 3 example_env 0 10000 (example_camera\<lparr>is_running := True\<rparr>) = Some c'
      \<and> decodes (new_actions (example_camera\<lparr>is_running := True\<rparr>) c')
          = [(0, 4096), (4096, 8192), (8192, 10000)]"
proof -
  have n: "(0::int) \<le> 10000" "(10000::int) < 2 ^ 32" by simp_all
  have s: "get_raw_event_size_bytes example_env * 1024 < 2 ^ 32"
    by (simp add: example_env_def)
  have run: "is_running (example_camera\<lparr>is_running := True\<rparr>)" by simp
  have fuel: "(nat 10000 + max 128 (get_raw_event_size_bytes example_env * 1024) - 1)
                 div max 128 (get_raw_event_size_bytes example_env * 1024) \<le> 3"
    by (simp add: example_env_def)
  have sb: "sub_buffers 0 10000 (max 128 (get_raw_event_size_bytes example_env * 1024))
      = [(0, 4096), (4096, 8192), (8192, 10000)]"
    by (simp add: example_env_def sub_buffers_def upt_rec)
  from emulation_sub_buffer_sizes [OF n s run fuel, of 0] show ?thesis
    unfolding sb by blast
qed

lemma emulate_loop_stuck:
  "is_running c \<Longrightarrow> emulate_loop fuel env 1 4294967297 4096 c = None"
proof (induction fuel arbitrary: c)
  case 0
  then show ?case by (simp add: emulate_cond_def)
next
  case (Suc k)
  have f: "fst (emulate_iter env 1 4294967297 4096 c) = 1"
    by (simp add: fst_emulate_iter)
  have r: "is_running (snd (emulate_iter env 1 4294967297 4096 c))"
    using Suc.prems by simp
  show ?case
    using Suc.prems Suc.IH [OF r] f by (simp add: emulate_cond_def case_prod_beta)
qed

text \<open>
  C5 as stated fails in three ways. A buffer of \<open>2 ^ 32 + 1\<close> bytes with events of 4
  bytes (step 4096): \<^verbatim>\<open>remains\<close> is cut to 32 bits, the first sub-buffer has 1 byte, the
  next ones none, and the loop does not end within 3 turns. A buffer handed over when
  \<^verbatim>\<open>is_running_\<close> is already false is not decoded at all. With a raw event size of
  \<open>2 ^ 22\<close> the product wraps and the step is 128 bytes.
\<close>

theorem emulation_sub_buffer_counterexample:
  "bytes_step_to_decode (get_raw_event_size_bytes example_env) = 4096
   \<and> decodes (new_actions (example_camera\<lparr>is_running := True\<rparr>)
        (snd (emulate_iter example_env 0 4294967297 4096 (example_camera\<lparr>is_running := True\<rparr>))))
       = [(0, 1)]
   \<and> emulate_real_time 3 example_env 0 4294967297 (example_camera\<lparr>is_running := True\<rparr>) = None
   \<and> emulate_real_time 3 example_env 0 10000 example_camera = Some example_camera
   \<and> sub_buffers 0 10000 4096 = [(0, 4096), (4096, 8192), (8192, 10000)]
   \<and> bytes_step_to_decode 4194304 = 128"
proof -
  let ?c = "example_camera\<lparr>is_running := True\<rparr>"
  have s: "bytes_step_to_decode (get_raw_event_size_bytes example_env) = 4096"
    by (simp add: example_env_def bytes_step_to_decode_def)
  have f: "fst (emulate_iter example_env 0 4294967297 4096 ?c) = 1"
    by (simp add: fst_emulate_iter)
  have d: "decodes (new_actions ?c (snd (emulate_iter example_env 0 4294967297 4096 ?c))) = [(0, 1)]"
    by (simp add: new_actions_def trace_emulate_iter f)
  have r: "is_running (snd (emulate_iter example_env 0 4294967297 4096 ?c))" by simp
  have l: "emulate_real_time 3 example_env 0 4294967297 ?c = None"
    using emulate_loop_stuck [OF r, of "Suc (Suc 0)" example_env] f
    by (simp add: emulate_real_time_def s numeral_3_eq_3 emulate_cond_def case_prod_beta)
  have n: "emulate_real_time 3 example_env 0 10000 example_camera = Some example_camera"
    by (simp add: emulate_real_time_def numeral_3_eq_3 emulate_cond_def example_camera_def)
  have b: "sub_buffers 0 10000 4096 = [(0, 4096), (4096, 8192), (8192, 10000)]"
    by (simp add: sub_buffers_def upt_rec)
  have o: "bytes_step_to_decode 4194304 = 128"
    by (simp add: bytes_step_to_decode_def)
  show ?thesis using s d l n b o by blast
qed

section \<open>Pacing: sleep until the expected wall-clock time\<close>

text \<open>
  C7 (as amended). In one turn of the emulation loop, let the expected wall-clock time be
  the anchor clock plus the difference between the decoded timestamp and the anchor
  timestamp. If that difference is at most \<open>2 ^ 53\<close> microseconds in absolute value (so
  that it is exact as a double) and the expected time lies in \<open>[0, 2 ^ 63)\<close>, the
  turn requests exactly one sleep of (expected - now) microseconds when the clock is
  strictly earlier than the expected time, and no sleep otherwise.
\<close>

theorem sleep_matches_schedule:
  assumes e: "emulate_iter env ev ev_end step c = (ev', c')"
    and d: "\<bar>sint (get_last_timestamp env (Suc (n_decodes c))) - sint (first_ts c')\<bar> \<le> 2 ^ 53"
    and lo: "0 \<le> uint (first_ts_clock c')
                 + (sint (get_last_timestamp env (Suc (n_decodes c))) - sint (first_ts c'))"
    and hi: "uint (first_ts_clock c')
                 + (sint (get_last_timestamp env (Suc (n_decodes c))) - sint (first_ts c')) < 2 ^ 63"
  shows "sleeps (new_actions c c') =
     (if uint (get_system_time_us env (n_clock_reads c))
           < uint (first_ts_clock c')
               + (sint (get_last_timestamp env (Suc (n_decodes c))) - sint (first_ts c'))
      then [uint (first_ts_clock c')
               + (sint (get_last_timestamp env (Suc (n_decodes c))) - sint (first_ts c'))
            - uint (get_system_time_us env (n_clock_reads c))]
      else [])"
proof -
  let ?ts = "get_last_timestamp env (Suc (n_decodes c))"
  let ?now = "get_system_time_us env (n_clock_reads c)"
  let ?E = "uint (first_ts_clock c') + (sint ?ts - sint (first_ts c'))"
  let ?x = "first_ts_clock c' + (?ts - first_ts c')"
  have f: "fst (emulate_iter env ev ev_end step c) = ev'"
    and s: "snd (emulate_iter env ev ev_end step c) = c'"
    using e by simp_all
  have n: "new_actions c c' = Decode ev ev'
       # map (\<lambda>i. RawCallback i ev (ev' - ev)) (raw_data_cbs c)
       @ pacing (first_ts_clock c') (first_ts c') ?ts ?now"
    by (rule new_actions_append) (use trace_emulate_iter [of env ev ev_end step c] in \<open>simp add: f s\<close>)
  have sd: "scaled_diff ?ts (first_ts c') = ?ts - first_ts c'"
    using d by (rule scaled_diff_exact)
  have ue: "uint ?x = ?E"
    using lo hi by (intro uint_expected) auto
  have lt: "(?now < ?x) = (uint ?now < ?E)"
    unfolding word_less_def ue ..
  have sl: "sint (?x - ?now) = ?E - uint ?now" if "uint ?now < ?E"
    using sint_sub_small [of ?now ?x] hi that unfolding ue by simp
  have p: "pacing (first_ts_clock c') (first_ts c') ?ts ?now =
      (if uint ?now < ?E then [SleepFor (?E - uint ?now)] else [])"
    unfolding pacing_def sd lt using sl by simp
  show ?thesis
    unfolding n p by simp
qed

theorem sleep_matches_schedule_witness:
  "sleeps (new_actions (example_camera\<lparr>is_running := True, first_ts := 100, first_ts_clock := 1000\<rparr>)
      (snd (emulate_iter example_env 0 10000 4096
         (example_camera\<lparr>is_running := True, first_ts := 100, first_ts_clock := 1000\<rparr>)))) = [200]"
  using sleep_matches_schedule [of example_env 0 10000 4096
          "example_camera\<lparr>is_running := True, first_ts := 100, first_ts_clock := 1000\<rparr>"
          "fst (emulate_iter example_env 0 10000 4096
             (example_camera\<lparr>is_running := True, first_ts := 100, first_ts_clock := 1000\<rparr>))"
          "snd (emulate_iter example_env 0 10000 4096
             (example_camera\<lparr>is_running := True, first_ts := 100, first_ts_clock := 1000\<rparr>))"]
  by (simp add: ex_simps round_to_double_def)

text \<open>
  C7 as stated fails when the difference of the timestamps is not exact as a double:
  with anchors (timestamp 0, clock 2), a decoded timestamp of \<open>2 ^ 53 + 1\<close> and the
  clock at 1, the expected time less the clock is \<open>2 ^ 53 + 2\<close>, and the sleep
  requested is \<open>2 ^ 53 + 1\<close>.
\<close>

theorem sleep_counterexample:
  "sleeps (new_actions (example_camera\<lparr>is_running := True, first_ts := 0, first_ts_clock := 2\<rparr>)
      (snd (emulate_iter (example_env\<lparr>get_last_timestamp := (\<lambda>k. 9007199254740993),
                                      get_system_time_us := (\<lambda>k. 1)\<rparr>) 0 10000 4096
         (example_camera\<lparr>is_running := True, first_ts := 0, first_ts_clock := 2\<rparr>))))
     = [9007199254740993]
   \<and> uint (2 :: 64 word) + (sint (9007199254740993 :: 64 word) - sint (0 :: 64 word))
       - uint (1 :: 64 word) = 9007199254740994"
  by (simp add: ex_simps round_to_double_def bit_length.simps)

section \<open>The timing anchors are fixed once\<close>

lemma anchored_as_set_is_running [simp]:
  "anchored_as env d0 t0 k (set_is_running b c) = anchored_as env d0 t0 k c"
  by (simp add: anchored_as_def)

lemma anchored_as_emulate_iter:
  assumes same: "\<forall>i<k. get_last_timestamp env (d0 + Suc i) = get_last_timestamp env d0"
    and change: "get_last_timestamp env (d0 + Suc k) \<noteq> get_last_timestamp env d0"
    and clock: "get_system_time_us env (t0 + k) \<noteq> 0"
    and inv: "anchored_as env d0 t0 k c"
  shows "anchored_as env d0 t0 k (snd (emulate_iter env ev ev_end step c))"
proof -
  define m where "m = n_decodes c - d0"
  have nd: "n_decodes c = d0 + m" and nc: "n_clock_reads c = t0 + m"
    and ts: "first_ts c = (if m \<le> k then get_last_timestamp env d0
                           else get_last_timestamp env (d0 + Suc k))"
    and tc: "first_ts_clock c = (if m \<le> k then 0 else get_system_time_us env (t0 + k))"
    using inv unfolding anchored_as_def m_def by simp_all
  let ?c' = "snd (emulate_iter env ev ev_end step c)"
  have nd': "n_decodes ?c' - d0 = Suc m" "d0 \<le> n_decodes ?c'" "n_clock_reads ?c' = t0 + Suc m"
    using nd nc by simp_all
  consider "m < k" | "m = k" | "k < m" by linarith
  then have "first_ts ?c' = (if Suc m \<le> k then get_last_timestamp env d0
                           else get_last_timestamp env (d0 + Suc k))
      \<and> first_ts_clock ?c' = (if Suc m \<le> k then 0 else get_system_time_us env (t0 + k))"
  proof cases
    case 1
    then have "get_last_timestamp env (Suc (n_decodes c)) = get_last_timestamp env d0"
      using same nd by simp
    then show ?thesis using 1 ts tc by (simp add: anchors_emulate_iter)
  next
    case 2
    then have "get_last_timestamp env (Suc (n_decodes c)) \<noteq> first_ts c"
      using change nd ts by simp
    then show ?thesis using 2 ts tc nd nc by (simp add: anchors_emulate_iter)
  next
    case 3
    then have "first_ts_clock c \<noteq> 0" using tc clock by simp
    then show ?thesis using 3 ts tc by (simp add: anchors_emulate_iter)
  qed
  then show ?thesis unfolding anchored_as_def nd' using nd' by simp
qed

lemma anchors_pump_step:
  assumes same: "\<forall>i<k. get_last_timestamp env (d0 + Suc i) = get_last_timestamp env d0"
    and change: "get_last_timestamp env (d0 + Suc k) \<noteq> get_last_timestamp env d0"
    and clock: "get_system_time_us env (t0 + k) \<noteq> 0"
    and inv: "anchored_as env d0 t0 k c" and emu: "emulate_real_time_flag c"
    and pc: "pump c \<noteq> AtRun"
  shows "anchored_as env d0 t0 k (pump_step env c) \<and> pump (pump_step env c) \<noteq> AtRun"
proof (cases "pump c")
  case (AtMainLoop res)
  then show ?thesis
    using inv emu
    by (simp add: pump_step.simps run_main_loop_iter_def run_finish_def Let_def
          case_prod_beta anchored_as_def)
next
  case (AtEmulate res ev ev_end step)
  show ?thesis
  proof (cases "emulate_cond ev ev_end c")
    case True
    have "anchored_as env d0 t0 k (snd (emulate_iter env ev ev_end step c))"
      using anchored_as_emulate_iter [OF same change clock inv] .
    then show ?thesis using AtEmulate True
      by (simp add: pump_step.simps emulate_step_def case_prod_beta anchored_as_def)
  next
    case False
    then show ?thesis using AtEmulate inv
      by (simp add: pump_step.simps emulate_step_def anchored_as_def)
  qed
qed (use inv pc in \<open>simp_all add: pump_step.simps\<close>)

lemma anchors_pump_steps:
  assumes same: "\<forall>i<k. get_last_timestamp env (d0 + Suc i) = get_last_timestamp env d0"
    and change: "get_last_timestamp env (d0 + Suc k) \<noteq> get_last_timestamp env d0"
    and clock: "get_system_time_us env (t0 + k) \<noteq> 0"
  shows "anchored_as env d0 t0 k c \<Longrightarrow> emulate_real_time_flag c \<Longrightarrow> pump c \<noteq> AtRun
     \<Longrightarrow> anchored_as env d0 t0 k (pump_steps env sched c)"
proof (induction sched arbitrary: c)
  case Nil
  then show ?case by simp
next
  case (Cons b sched)
  let ?c = "if b then set_is_running False c else c"
  have "anchored_as env d0 t0 k ?c" "emulate_real_time_flag ?c" "pump ?c \<noteq> AtRun"
    using Cons.prems by simp_all
  from anchors_pump_step [OF same change clock this]
  have "anchored_as env d0 t0 k (pump_step env ?c)" "pump (pump_step env ?c) \<noteq> AtRun"
    by simp_all
  moreover have "emulate_real_time_flag (pump_step env ?c)" using Cons.prems by simp
  ultimately show ?case using Cons.IH by simp
qed

text \<open>
  C6 (as amended). In a file-replay run with real-time emulation, whatever the moments
  at which \<^verbatim>\<open>is_running_\<close> is cleared from outside: the anchors are reset when the run
  begins (to the decoder's last timestamp and to clock 0); they keep these values as long
  as the sub-buffers processed leave the decoded timestamp at its initial value; the
  first sub-buffer that reports a different timestamp (sub-buffer \<open>k\<close>) sets them to that
  timestamp and to the clock read then; and if that clock reading is not 0 they keep
  these values for the rest of the run.
\<close>

theorem anchors_fixed_once:
  assumes at: "pump c0 = AtRun" "run_thread_status c0 = RunThread_STARTED"
    and wf: "is_init c0" "has_device c0" "has_events_stream c0" "has_decoder c0"
    and fl: "from_file c0" "emulate_real_time_flag c0"
    and same: "\<forall>i<k. get_last_timestamp env (n_decodes c0 + Suc i)
                        = get_last_timestamp env (n_decodes c0)"
    and change: "get_last_timestamp env (n_decodes c0 + Suc k)
                        \<noteq> get_last_timestamp env (n_decodes c0)"
    and clock: "get_system_time_us env (n_clock_reads c0 + k) \<noteq> 0"
  shows "n_decodes c0 \<le> n_decodes (pump_steps env (stop_now # sched) c0)
     \<and> first_ts (pump_steps env (stop_now # sched) c0) =
         (if n_decodes (pump_steps env (stop_now # sched) c0) - n_decodes c0 \<le> k
          then get_last_timestamp env (n_decodes c0)
          else get_last_timestamp env (n_decodes c0 + Suc k))
     \<and> first_ts_clock (pump_steps env (stop_now # sched) c0) =
         (if n_decodes (pump_steps env (stop_now # sched) c0) - n_decodes c0 \<le> k
          then 0
          else get_system_time_us env (n_clock_reads c0 + k))"
proof -
  let ?c = "if stop_now then set_is_running False c0 else c0"
  let ?c1 = "pump_step env ?c"
  have s: "?c1 = run_begin env ?c" using at by (simp add: pump_step.simps)
  have b: "anchored_as env (n_decodes c0) (n_clock_reads c0) k ?c1"
      "emulate_real_time_flag ?c1" "pump ?c1 \<noteq> AtRun"
    unfolding s using at wf fl
    by (auto simp: run_begin_def run_from_file_begin_def run_main_loop_begin_def init_clocks_def
          check_initialization_def check_camera_device_instance_def
          check_events_stream_instance_def check_decoder_device_instance_def
          anchored_as_def Let_def)
  have "anchored_as env (n_decodes c0) (n_clock_reads c0) k (pump_steps env sched ?c1)"
    using anchors_pump_steps [OF same change clock b] .
  then show ?thesis by (simp add: anchored_as_def)
qed

text \<open>The replay of the concrete session, step by step.\<close>

lemma replay_camera_fields:
  "pump replay_camera = AtRun" "run_thread_status replay_camera = RunThread_STARTED"
  "is_init replay_camera" "has_device replay_camera" "has_events_stream replay_camera"
  "has_decoder replay_camera" "from_file replay_camera" "emulate_real_time_flag replay_camera"
  "n_decodes replay_camera = 0" "n_clock_reads replay_camera = 0" "is_running replay_camera"
  "n_polls replay_camera = 0"
  by (simp_all add: replay_camera_def example_camera_def)

lemma replay_env_fields:
  "wait_next_buffer (replay_env ts clk) = (\<lambda>k. 1)"
  "get_last_timestamp (replay_env ts clk) = ts"
  "get_system_time_us (replay_env ts clk) = clk"
  "get_latest_raw_data (replay_env ts clk) = (\<lambda>k. (0, 10000))"
  "get_raw_event_size_bytes (replay_env ts clk) = 4"
  by (simp_all add: replay_env_def example_env_def)

text \<open>The first steps of the replay: into the main loop, then a poll.\<close>

lemma replay_two_steps:
  "pump_step (replay_env ts clk) (pump_step (replay_env ts clk) replay_camera)
     = (emit [EventsStreamStart, WaitNextBuffer 1] replay_camera)
         \<lparr>run_thread_status := RunThread_RUNNING, camera_is_started := True,
          first_ts := ts 0, first_ts_clock := 0, n_polls := 1,
          pump := AtEmulate 1 0 10000 4096\<rparr>"
  by (simp add: pump_simps replay_camera_fields replay_env_fields Let_def
        bytes_step_to_decode_def emit_def)

lemma replay_two_steps_fields:
  "pump (pump_step (replay_env ts clk) (pump_step (replay_env ts clk) replay_camera))
     = AtEmulate 1 0 10000 4096"
  "is_running (pump_step (replay_env ts clk) (pump_step (replay_env ts clk) replay_camera))"
  "n_decodes (pump_step (replay_env ts clk) (pump_step (replay_env ts clk) replay_camera)) = 0"
  "n_clock_reads (pump_step (replay_env ts clk) (pump_step (replay_env ts clk) replay_camera)) = 0"
  "first_ts (pump_step (replay_env ts clk) (pump_step (replay_env ts clk) replay_camera)) = ts 0"
  "first_ts_clock (pump_step (replay_env ts clk) (pump_step (replay_env ts clk) replay_camera)) = 0"
  unfolding replay_two_steps by (simp_all add: replay_camera_fields)

text \<open>A step of the thread inside the emulation loop, on a sub-buffer of 4096 bytes.\<close>

lemma emulate_pump_step:
  assumes "pump c = AtEmulate res ev 10000 4096" "ev + 4096 < 10000" "0 \<le> ev" "is_running c"
  shows "pump (pump_step env c) = AtEmulate res (ev + 4096) 10000 4096"
    and "is_running (pump_step env c)"
    and "n_decodes (pump_step env c) = Suc (n_decodes c)"
    and "n_clock_reads (pump_step env c) = Suc (n_clock_reads c)"
    and "first_ts (pump_step env c) =
          (if first_ts_clock c = 0 \<and> get_last_timestamp env (Suc (n_decodes c)) \<noteq> first_ts c
           then get_last_timestamp env (Suc (n_decodes c)) else first_ts c)"
    and "first_ts_clock (pump_step env c) =
          (if first_ts_clock c = 0 \<and> get_last_timestamp env (Suc (n_decodes c)) \<noteq> first_ts c
           then get_system_time_us env (n_clock_reads c) else first_ts_clock c)"
proof -
  have c: "emulate_cond ev 10000 c" using assms by (simp add: emulate_cond_def)
  have m: "(10000 - ev) mod 2 ^ 32 = 10000 - ev"
    using assms by (intro mod_pos_pos_trivial) simp_all
  have f: "fst (emulate_iter env ev 10000 4096 c) = ev + 4096"
    unfolding fst_emulate_iter m using assms by simp
  have s: "pump_step env c = (snd (emulate_iter env ev 10000 4096 c))
                               \<lparr>pump := AtEmulate res (ev + 4096) 10000 4096\<rparr>"
    using assms(1) c f by (simp add: pump_step.simps emulate_step_def case_prod_beta)
  show "pump (pump_step env c) = AtEmulate res (ev + 4096) 10000 4096"
    and "is_running (pump_step env c)"
    and "n_decodes (pump_step env c) = Suc (n_decodes c)"
    and "n_clock_reads (pump_step env c) = Suc (n_clock_reads c)"
    unfolding s using assms(4) by simp_all
  show "first_ts (pump_step env c) =
          (if first_ts_clock c = 0 \<and> get_last_timestamp env (Suc (n_decodes c)) \<noteq> first_ts c
           then get_last_timestamp env (Suc (n_decodes c)) else first_ts c)"
    and "first_ts_clock (pump_step env c) =
          (if first_ts_clock c = 0 \<and> get_last_timestamp env (Suc (n_decodes c)) \<noteq> first_ts c
           then get_system_time_us env (n_clock_reads c) else first_ts_clock c)"
    unfolding s by (simp_all add: anchors_emulate_iter)
qed

text \<open>The anchors after the first and after the second sub-buffer of the replay.\<close>

lemma replay_anchors:
  "first_ts (pump_steps (replay_env ts clk) [False, False, False] replay_camera)
     = (if ts 1 \<noteq> ts 0 then ts 1 else ts 0)"
  "first_ts_clock (pump_steps (replay_env ts clk) [False, False, False] replay_camera)
     = (if ts 1 \<noteq> ts 0 then clk 0 else 0)"
  "n_decodes (pump_steps (replay_env ts clk) [False, False, False] replay_camera) = 1"
  "first_ts (pump_steps (replay_env ts clk) [False, False, False, False] replay_camera)
     = (if ts 1 \<noteq> ts 0 then (if clk 0 = 0 \<and> ts 2 \<noteq> ts 1 then ts 2 else ts 1)
        else (if ts 2 \<noteq> ts 0 then ts 2 else ts 0))"
  "first_ts_clock (pump_steps (replay_env ts clk) [False, False, False, False] replay_camera)
     = (if ts 1 \<noteq> ts 0 then (if clk 0 = 0 \<and> ts 2 \<noteq> ts 1 then clk 1 else clk 0)
        else (if ts 2 \<noteq> ts 0 then clk 1 else 0))"
  "n_decodes (pump_steps (replay_env ts clk) [False, False, False, False] replay_camera) = 2"
proof -
  let ?e = "replay_env ts clk"
  let ?c2 = "pump_step ?e (pump_step ?e replay_camera)"
  let ?c3 = "pump_step ?e ?c2"
  note s2 = replay_two_steps_fields [of ts clk]
  have p3: "pump ?c2 = AtEmulate 1 0 10000 4096" "(0::int) + 4096 < 10000" "(0::int) \<le> 0"
      "is_running ?c2"
    using s2 by simp_all
  note s3 = emulate_pump_step [OF p3, of ?e, unfolded s2 replay_env_fields]
  have p4: "pump ?c3 = AtEmulate 1 (0 + 4096) 10000 4096" "(0::int) + 4096 + 4096 < 10000"
      "(0::int) \<le> 0 + 4096" "is_running ?c3"
    using s3 by simp_all
  note s4 = emulate_pump_step [OF p4, of ?e, unfolded s3 replay_env_fields]
  show "first_ts (pump_steps ?e [False, False, False] replay_camera)
     = (if ts 1 \<noteq> ts 0 then ts 1 else ts 0)"
    "first_ts_clock (pump_steps ?e [False, False, False] replay_camera)
     = (if ts 1 \<noteq> ts 0 then clk 0 else 0)"
    "n_decodes (pump_steps ?e [False, False, False] replay_camera) = 1"
    using s3 by simp_all
  show "first_ts (pump_steps ?e [False, False, False, False] replay_camera)
     = (if ts 1 \<noteq> ts 0 then (if clk 0 = 0 \<and> ts 2 \<noteq> ts 1 then ts 2 else ts 1)
        else (if ts 2 \<noteq> ts 0 then ts 2 else ts 0))"
    "first_ts_clock (pump_steps ?e [False, False, False, False] replay_camera)
     = (if ts 1 \<noteq> ts 0 then (if clk 0 = 0 \<and> ts 2 \<noteq> ts 1 then clk 1 else clk 0)
        else (if ts 2 \<noteq> ts 0 then clk 1 else 0))"
    "n_decodes (pump_steps ?e [False, False, False, False] replay_camera) = 2"
    using s4 by (simp_all add: numeral_2_eq_2)
qed


theorem anchors_fixed_once_witness:
  "first_ts (pump_steps (replay_env (\<lambda>j. if j < 2 then 7 else 50) (\<lambda>j. 1100))
              [False, False, False, False] replay_camera) = 50
   \<and> first_ts_clock (pump_steps (replay_env (\<lambda>j. if j < 2 then 7 else 50) (\<lambda>j. 1100))
              [False, False, False, False] replay_camera) = 1100"
proof -
  let ?ts = "\<lambda>j::nat. if j < 2 then 7 else (50 :: 64 word)"
  let ?e = "replay_env ?ts (\<lambda>j. 1100)"
  have same: "\<forall>i<1. get_last_timestamp ?e (n_decodes replay_camera + Suc i)
                        = get_last_timestamp ?e (n_decodes replay_camera)"
    by (simp add: replay_env_fields replay_camera_fields)
  have change: "get_last_timestamp ?e (n_decodes replay_camera + Suc 1)
                        \<noteq> get_last_timestamp ?e (n_decodes replay_camera)"
    by (simp add: replay_env_fields replay_camera_fields)
  have clock: "get_system_time_us ?e (n_clock_reads replay_camera + 1) \<noteq> 0"
    by (simp add: replay_env_fields)
  have n: "n_decodes (pump_steps ?e [False, False, False, False] replay_camera) = 2"
    by (rule replay_anchors)
  from anchors_fixed_once [OF replay_camera_fields(1-8) same change clock,
      of False "[False, False, False]"]
  show ?thesis unfolding n by (simp add: replay_env_fields replay_camera_fields)
qed

text \<open>
  C6 as stated fails in two ways. With decoded timestamps 10 (initial), 5, 20 the
  anchors are set on the first sub-buffer, whose timestamp went down, not on the second,
  the first whose timestamp is above the initial one, and they stay at (5, 1000). With
  timestamps 10, 20, 30 and a clock that reads 0 at the first sub-buffer, the anchors
  are set to (20, 0) on the first sub-buffer and set again to (30, 2000) on the second.
\<close>

theorem anchors_counterexample:
  "sint (5 :: 64 word) < sint (10 :: 64 word)
   \<and> first_ts (pump_steps
        (replay_env (\<lambda>j. if j = 0 then 10 else if j = 1 then 5 else 20)
                    (\<lambda>j. if j = 0 then 1000 else 2000))
        [False, False, False] replay_camera) = 5
   \<and> first_ts_clock (pump_steps
        (replay_env (\<lambda>j. if j = 0 then 10 else if j = 1 then 5 else 20)
                    (\<lambda>j. if j = 0 then 1000 else 2000))
        [False, False, False] replay_camera) = 1000
   \<and> first_ts (pump_steps
        (replay_env (\<lambda>j. if j = 0 then 10 else if j = 1 then 5 else 20)
                    (\<lambda>j. if j = 0 then 1000 else 2000))
        [False, False, False, False] replay_camera) = 5
   \<and> first_ts (pump_steps
        (replay_env (\<lambda>j. if j = 0 then 10 else if j = 1 then 20 else 30)
                    (\<lambda>j. if j = 0 then 0 else 2000))
        [False, False, False] replay_camera) = 20
   \<and> first_ts_clock (pump_steps
        (replay_env (\<lambda>j. if j = 0 then 10 else if j = 1 then 20 else 30)
                    (\<lambda>j. if j = 0 then 0 else 2000))
        [False, False, False] replay_camera) = 0
   \<and> first_ts (pump_steps
        (replay_env (\<lambda>j. if j = 0 then 10 else if j = 1 then 20 else 30)
                    (\<lambda>j. if j = 0 then 0 else 2000))
        [False, False, False, False] replay_camera) = 30
   \<and> first_ts_clock (pump_steps
        (replay_env (\<lambda>j. if j = 0 then 10 else if j = 1 then 20 else 30)
                    (\<lambda>j. if j = 0 then 0 else 2000))
        [False, False, False, False] replay_camera) = 2000"
  unfolding replay_anchors by simp

section \<open>A failing stream and the runtime-error callbacks\<close>

text \<open>
  \<^verbatim>\<open>end_run\<close> calls the runtime-error callbacks when \<^verbatim>\<open>run_output == -1\<close>, but the
  value it receives has gone through \<^verbatim>\<open>run_from_camera\<close> or \<^verbatim>\<open>run_from_file\<close>, which
  return only \<^verbatim>\<open>false\<close> or \<^verbatim>\<open>true\<close>: no step of the thread ever calls a runtime-error
  callback.
\<close>

lemma runtime_error_callbacks_never_called:
  "RuntimeErrorCallback i e \<notin> set (new_actions c (pump_step env c))"
proof -
  obtain evs where t: "trace (pump_step env c) = trace c @ evs" and p: "\<forall>a\<in>set evs. pump_action a"
    using pump_action_pump_step by blast
  have "new_actions c (pump_step env c) = evs" using t by (rule new_actions_append)
  then show ?thesis using p by auto
qed

text \<open>
  C1 fails on the code. A live session at the start of its acquisition thread, with
  runtime-error callback 2 registered, whose stream fails at the first poll
  (\<^verbatim>\<open>wait_next_buffer\<close> returns -1): the thread leaves the main loop and ends, and
  \<^verbatim>\<open>is_running_\<close> is forced to false with the status-change notification, but no
  runtime-error callback is called.
\<close>

theorem transfer_failure_not_reported:
  "runtime_error_callback_map
      (example_camera\<lparr>joinable := True, pump := AtRun, is_running := True,
         run_thread_status := RunThread_STARTED\<rparr>) = {|2|}
   \<and> wait_next_buffer example_env 0 = - 1
   \<and> map_option
        (\<lambda>c'. (new_actions
                 (example_camera\<lparr>joinable := True, pump := AtRun, is_running := True,
                    run_thread_status := RunThread_STARTED\<rparr>) c',
               is_running c', pump c'))
        (pump_run 2 example_env
           (example_camera\<lparr>joinable := True, pump := AtRun, is_running := True,
              run_thread_status := RunThread_STARTED\<rparr>))
       = Some ([EventsStreamStart, DeviceControlStart, DeviceControlReset,
                WaitNextBuffer (- 1), StatusChangeCallback 1 CameraStatus_STOPPED],
               False, Finished)"
  by (simp add: numeral_2_eq_2 pump_simps example_camera_def example_env_def new_actions_def
        emit_def sorted_list_of_fset.rep_eq Let_def)

section \<open>Starting twice\<close>

text \<open>
  C2. On an initialized session whose acquisition thread exists (is joinable),
  \<^verbatim>\<open>start\<close> returns false and leaves the session as it is: no thread is created. On an
  initialized session without a thread, holding the facilities that its constructor
  checks (device, events stream, decoder, and the device control unless it reads a
  file), \<^verbatim>\<open>start\<close> creates exactly one thread, waits until that thread has reached
  the main loop, and returns true; however far the thread has got afterwards, a further
  \<^verbatim>\<open>start\<close> returns false and changes nothing.
\<close>

theorem start_spawns_once:
  assumes i: "is_init c"
  shows "(joinable c \<longrightarrow> start fuel env c = Some (Returns False c))
   \<and> (\<not> joinable c \<and> has_device c \<and> has_events_stream c \<and> has_decoder c
        \<and> (from_file c \<or> has_device_control c) \<longrightarrow>
       (\<exists>c'. start (Suc fuel) env c = Some (Returns True c')
          \<and> trace c' = trace c @ new_actions c c'
          \<and> count_list (new_actions c c') ThreadSpawn = 1
          \<and> joinable c' \<and> camera_is_started c'
          \<and> (\<forall>j. start fuel' env ((pump_step env ^^ j) c')
                    = Some (Returns False ((pump_step env ^^ j) c')))))"
proof (intro conjI impI)
  assume "joinable c"
  then show "start fuel env c = Some (Returns False c)"
    using i by (simp add: start_def check_initialization_def)
next
  assume a: "\<not> joinable c \<and> has_device c \<and> has_events_stream c \<and> has_decoder c
        \<and> (from_file c \<or> has_device_control c)"
  let ?c2 = "(emit [ThreadSpawn] (c\<lparr>camera_is_started := False\<rparr>))\<lparr>joinable := True, pump := AtRun\<rparr>"
  let ?c3 = "set_is_running True ?c2"
  let ?c4 = "?c3\<lparr>run_thread_status := RunThread_STARTED\<rparr>"
  let ?c5 = "pump_step env ?c4"
  obtain e3 where t3: "trace ?c3 = trace ?c2 @ e3" and p3: "\<forall>a\<in>set e3. pump_action a"
    using pump_action_set_is_running by blast
  have t4: "trace ?c4 = trace c @ ThreadSpawn # e3" using t3 by simp
  have s5: "?c5 = run_begin env ?c4" by (simp add: pump_step.simps)
  have f5: "camera_is_started ?c5" "pump ?c5 = AtMainLoop 0" "is_running ?c5"
      "run_thread_status ?c5 = RunThread_RUNNING" "joinable ?c5" "is_init ?c5"
    unfolding s5 using a i
    by (auto simp: run_begin_def run_from_file_begin_def run_from_camera_begin_def
          run_main_loop_begin_def init_clocks_def check_initialization_def
          check_camera_device_instance_def check_events_stream_instance_def
          check_decoder_device_instance_def check_ccam_instance_def Let_def)
  obtain e5 where t5: "trace ?c5 = trace ?c4 @ e5" and p5: "\<forall>a\<in>set e5. pump_action a"
    using pump_action_pump_step by blast
  have w: "wait_camera_is_started (Suc fuel) env ?c4 = Some ?c5"
    using f5(1) by (simp add: wait_camera_is_started_done)
  have st: "start (Suc fuel) env c = Some (Returns True ?c5)"
    using i a w by (simp add: start_def check_initialization_def Let_def)
  have tr: "trace ?c5 = trace c @ (ThreadSpawn # e3 @ e5)" using t4 t5 by simp
  have na: "new_actions c ?c5 = ThreadSpawn # e3 @ e5" using tr by (rule new_actions_append)
  have "count_list (e3 @ e5) ThreadSpawn = 0"
    using p3 p5 by (auto simp: count_list_0_iff)
  then have cnt: "count_list (new_actions c ?c5) ThreadSpawn = 1" unfolding na by simp
  have again: "\<forall>j. start fuel' env ((pump_step env ^^ j) ?c5)
                    = Some (Returns False ((pump_step env ^^ j) ?c5))"
    using f5 by (simp add: start_def check_initialization_def)
  show "\<exists>c'. start (Suc fuel) env c = Some (Returns True c')
          \<and> trace c' = trace c @ new_actions c c'
          \<and> count_list (new_actions c c') ThreadSpawn = 1
          \<and> joinable c' \<and> camera_is_started c'
          \<and> (\<forall>j. start fuel' env ((pump_step env ^^ j) c')
                    = Some (Returns False ((pump_step env ^^ j) c')))"
    using st tr na cnt f5 again by (intro exI [of _ ?c5]) simp
qed


theorem start_spawns_once_witness:
  "\<exists>c'. start 1 example_env example_camera = Some (Returns True c')
      \<and> count_list (new_actions example_camera c') ThreadSpawn = 1
      \<and> joinable c'
      \<and> start 1 example_env c' = Some (Returns False c')
      \<and> start 1 example_env (pump_step example_env c')
           = Some (Returns False (pump_step example_env c'))"
proof -
  have h: "is_init example_camera"
      "\<not> joinable example_camera \<and> has_device example_camera
        \<and> has_events_stream example_camera \<and> has_decoder example_camera
        \<and> (from_file example_camera \<or> has_device_control example_camera)"
    by (simp_all add: example_camera_def)
  from start_spawns_once [OF h(1), of 0 example_env 1] h(2)
  obtain c' where s: "start 1 example_env example_camera = Some (Returns True c')"
    and n: "count_list (new_actions example_camera c') ThreadSpawn = 1" and j: "joinable c'"
    and a: "\<forall>j. start 1 example_env ((pump_step example_env ^^ j) c')
                    = Some (Returns False ((pump_step example_env ^^ j) c'))"
    by auto
  from a [rule_format, of 0] a [rule_format, of 1] show ?thesis using s n j by auto
qed

section \<open>Stopping: the recording is closed after the join\<close>

text \<open>
  C8. On a session whose acquisition thread has begun, \<^verbatim>\<open>stop\<close> returns true; and
  whenever \<^verbatim>\<open>stop\<close> returns true, what it did ends with the join of the acquisition
  thread followed by the stop of the recording (\<^verbatim>\<open>stop_log_raw_data\<close>), and nothing
  before them is a join or a stop of the recording: every poll, decoding and callback
  of the thread, which has ended, comes before the raw log is closed.
\<close>

theorem recording_stopped_after_join:
  "(is_init c \<and> joinable c \<and> has_events_stream c
      \<and> run_thread_status c = RunThread_RUNNING
      \<and> (pump c = Finished \<or> (\<exists>res. pump c = AtMainLoop res)
           \<or> (\<exists>res ev ev_end step. pump c = AtEmulate res ev ev_end step))
     \<longrightarrow> (\<exists>c'. stop (Suc (Suc fuel')) env c = Some (Returns True c')))
   \<and> (\<forall>c'. stop fuel env c = Some (Returns True c') \<longrightarrow>
        (\<exists>evs. trace c' = trace c @ evs @ [ThreadJoin, StopLogRawData]
           \<and> ThreadJoin \<notin> set evs \<and> StopLogRawData \<notin> set evs
           \<and> pump c' = NoThread \<and> \<not> joinable c' \<and> \<not> is_recording c' \<and> \<not> is_running c'))"
proof (intro conjI impI allI)
  assume "is_init c \<and> joinable c \<and> has_events_stream c
      \<and> run_thread_status c = RunThread_RUNNING
      \<and> (pump c = Finished \<or> (\<exists>res. pump c = AtMainLoop res)
           \<or> (\<exists>res ev ev_end step. pump c = AtEmulate res ev ev_end step))"
  then show "\<exists>c'. stop (Suc (Suc fuel')) env c = Some (Returns True c')"
    by (intro stop_returns) simp_all
next
  fix c'
  assume s: "stop fuel env c = Some (Returns True c')"
  have i: "is_init c" and j: "joinable c"
    using s by (auto simp: stop_def check_initialization_def split: if_splits)
  from stop_returns_true [OF s i j]
  obtain evs where t: "trace c' = trace c @ evs @ [ThreadJoin, StopLogRawData]"
    and p: "\<forall>a\<in>set evs. pump_action a \<or> a = EventsStreamStop \<or> a = DeviceControlStop"
    and f: "pump c' = NoThread" "\<not> joinable c'" "\<not> is_recording c'" "\<not> is_running c'"
    by auto
  have "ThreadJoin \<notin> set evs" "StopLogRawData \<notin> set evs" using p by auto
  then show "\<exists>evs. trace c' = trace c @ evs @ [ThreadJoin, StopLogRawData]
           \<and> ThreadJoin \<notin> set evs \<and> StopLogRawData \<notin> set evs
           \<and> pump c' = NoThread \<and> \<not> joinable c' \<and> \<not> is_recording c' \<and> \<not> is_running c'"
    using t f by blast
qed

theorem recording_stopped_after_join_witness:
  "\<exists>c' evs. stop 2 example_env
       (example_camera\<lparr>joinable := True, pump := AtMainLoop 0, camera_is_started := True,
          is_running := True, run_thread_status := RunThread_RUNNING, is_recording := True\<rparr>)
       = Some (Returns True c')
     \<and> trace c' = evs @ [ThreadJoin, StopLogRawData]
     \<and> ThreadJoin \<notin> set evs \<and> StopLogRawData \<notin> set evs \<and> \<not> is_recording c'"
proof -
  let ?c = "example_camera\<lparr>joinable := True, pump := AtMainLoop 0, camera_is_started := True,
          is_running := True, run_thread_status := RunThread_RUNNING, is_recording := True\<rparr>"
  note th = recording_stopped_after_join [of ?c 0 example_env 2]
  have h: "is_init ?c \<and> joinable ?c \<and> has_events_stream ?c
      \<and> run_thread_status ?c = RunThread_RUNNING
      \<and> (pump ?c = Finished \<or> (\<exists>res. pump ?c = AtMainLoop res)
           \<or> (\<exists>res ev ev_end step. pump ?c = AtEmulate res ev ev_end step))"
    by (simp add: example_camera_def)
  from th h obtain c' where s: "stop 2 example_env ?c = Some (Returns True c')"
    by (auto simp: numeral_2_eq_2)
  have t: "trace ?c = []" by (simp add: example_camera_def)
  from th s show ?thesis unfolding t by auto
qed

section \<open>Opening a recorded file: configuration errors\<close>

lemma no_open_pump_action:
  "pump_action a \<or> a = EventsStreamStop \<or> a = DeviceControlStop \<Longrightarrow> a \<noteq> OpenRawFile p"
  by auto

text \<open>
  C9. \<^verbatim>\<open>open_raw_file\<close> on a path that does not exist throws \<^verbatim>\<open>FileDoesNotExist\<close>; on
  an existing path that is not a regular file it throws \<^verbatim>\<open>NotARegularFile\<close>; on a
  regular file whose extension is not \<^verbatim>\<open>.raw\<close> it throws \<^verbatim>\<open>WrongExtension\<close>; in each
  case no device has been opened. On a session without an acquisition thread (as in the
  constructor) the call always comes back; with a thread it first stops the session.
\<close>

theorem open_raw_file_configuration_errors:
  "(\<not> (is_init c \<and> joinable c) \<longrightarrow> open_raw_file fuel env rawfile reproduce c \<noteq> None)
   \<and> (\<forall>r. open_raw_file fuel env rawfile reproduce c = Some r \<longrightarrow>
        (\<not> fs_exists env rawfile \<longrightarrow>
           (\<exists>c'. r = Throws FileDoesNotExist c' \<and> trace c' = trace c @ new_actions c c'
                \<and> (\<forall>p. OpenRawFile p \<notin> set (new_actions c c'))))
        \<and> (fs_exists env rawfile \<and> \<not> fs_is_regular_file env rawfile \<longrightarrow>
           (\<exists>c'. r = Throws NotARegularFile c' \<and> trace c' = trace c @ new_actions c c'
                \<and> (\<forall>p. OpenRawFile p \<notin> set (new_actions c c'))))
        \<and> (fs_exists env rawfile \<and> fs_is_regular_file env rawfile
              \<and> fs_extension env rawfile \<noteq> ''.raw'' \<longrightarrow>
           (\<exists>c'. r = Throws WrongExtension c' \<and> trace c' = trace c @ new_actions c c'
                \<and> (\<forall>p. OpenRawFile p \<notin> set (new_actions c c')))))"
proof (intro conjI impI allI)
  assume "\<not> (is_init c \<and> joinable c)"
  then show "open_raw_file fuel env rawfile reproduce c \<noteq> None"
    by (auto simp: open_raw_file_def Let_def split: option.splits)
next
  fix r
  assume o: "open_raw_file fuel env rawfile reproduce c = Some r"
  let ?pre = "if is_init c \<and> joinable c then stop fuel env c else Some (Returns False c)"
  have pre: "\<exists>b c0 evs. ?pre = Some (Returns b c0) \<and> trace c0 = trace c @ evs
        \<and> (\<forall>p. OpenRawFile p \<notin> set evs)"
  proof (cases "is_init c \<and> joinable c")
    case False
    then show ?thesis by auto
  next
    case True
    then obtain r0 where s: "stop fuel env c = Some r0"
      using o by (auto simp: open_raw_file_def split: option.splits)
    from stop_returns_true [OF s] True
    obtain c0 evs where r0: "r0 = Returns True c0"
      and t: "trace c0 = trace c @ evs @ [ThreadJoin, StopLogRawData]"
      and p: "\<forall>a\<in>set evs. pump_action a \<or> a = EventsStreamStop \<or> a = DeviceControlStop"
      by blast
    have "\<forall>p. OpenRawFile p \<notin> set (evs @ [ThreadJoin, StopLogRawData])"
      using p no_open_pump_action by auto
    then show ?thesis using True s r0 t by auto
  qed
  then obtain b c0 evs where p0: "?pre = Some (Returns b c0)"
    and t0: "trace c0 = trace c @ evs" and n0: "\<forall>p. OpenRawFile p \<notin> set evs"
    by blast
  let ?c1 = "c0\<lparr>is_init := True\<rparr>"
  have t1: "trace ?c1 = trace c @ evs" using t0 by simp
  have n1: "new_actions c ?c1 = evs" using t1 by (rule new_actions_append)
  have good: "trace ?c1 = trace c @ new_actions c ?c1 \<and> (\<forall>p. OpenRawFile p \<notin> set (new_actions c ?c1))"
    using t1 n1 n0 by simp
  {
    assume "\<not> fs_exists env rawfile"
    then have "r = Throws FileDoesNotExist ?c1"
      using o p0 by (simp add: open_raw_file_def Let_def)
    then show "\<exists>c'. r = Throws FileDoesNotExist c' \<and> trace c' = trace c @ new_actions c c'
                \<and> (\<forall>p. OpenRawFile p \<notin> set (new_actions c c'))"
      using good by blast
  }
  {
    assume "fs_exists env rawfile \<and> \<not> fs_is_regular_file env rawfile"
    then have "r = Throws NotARegularFile ?c1"
      using o p0 by (simp add: open_raw_file_def Let_def)
    then show "\<exists>c'. r = Throws NotARegularFile c' \<and> trace c' = trace c @ new_actions c c'
                \<and> (\<forall>p. OpenRawFile p \<notin> set (new_actions c c'))"
      using good by blast
  }
  {
    assume "fs_exists env rawfile \<and> fs_is_regular_file env rawfile
              \<and> fs_extension env rawfile \<noteq> ''.raw''"
    then have "r = Throws WrongExtension ?c1"
      using o p0 by (simp add: open_raw_file_def Let_def)
    then show "\<exists>c'. r = Throws WrongExtension c' \<and> trace c' = trace c @ new_actions c c'
                \<and> (\<forall>p. OpenRawFile p \<notin> set (new_actions c c'))"
      using good by blast
  }
qed

theorem open_raw_file_configuration_errors_witness:
  "open_raw_file 0 example_env ''missing.raw'' True example_camera
     = Some (Throws FileDoesNotExist example_camera)
   \<and> open_raw_file 0 example_env ''dir'' True example_camera
     = Some (Throws NotARegularFile example_camera)
   \<and> open_raw_file 0 example_env ''b.dat'' True example_camera
     = Some (Throws WrongExtension example_camera)
   \<and> OpenRawFile ''b.dat'' \<notin> set (new_actions example_camera example_camera)"
proof -
  have j: "\<not> joinable example_camera" "is_init example_camera"
    by (simp_all add: example_camera_def)
  have u: "example_camera\<lparr>is_init := True\<rparr> = example_camera"
    by (simp add: example_camera_def)
  have f: "\<not> fs_exists example_env ''missing.raw''"
      "fs_exists example_env ''dir'' \<and> \<not> fs_is_regular_file example_env ''dir''"
      "fs_exists example_env ''b.dat'' \<and> fs_is_regular_file example_env ''b.dat''
         \<and> fs_extension example_env ''b.dat'' \<noteq> ''.raw''"
    by (simp_all add: example_env_def)
  have o1: "open_raw_file 0 example_env ''missing.raw'' True example_camera
     = Some (Throws FileDoesNotExist example_camera)"
    using j f u by (simp add: open_raw_file_def Let_def)
  have o2: "open_raw_file 0 example_env ''dir'' True example_camera
     = Some (Throws NotARegularFile example_camera)"
    using j f u by (simp add: open_raw_file_def Let_def)
  have o3: "open_raw_file 0 example_env ''b.dat'' True example_camera
     = Some (Throws WrongExtension example_camera)"
    using j f u by (simp add: open_raw_file_def Let_def)
  from open_raw_file_configuration_errors [of example_camera 0 example_env "''b.dat''" True] o3 f(3)
  have "OpenRawFile ''b.dat'' \<notin> set (new_actions example_camera example_camera)"
    by auto
  then show ?thesis using o1 o2 o3 by simp
qed

section \<open>Generations are ordered lexicographically\<close>

lemma sint_eq_iff: "(sint v = sint w) = (v = w)"
  by (auto intro: signed_word_eqI)

lemma gen_less_lex: "gen_less a c = lex_less a c"
  by (simp add: gen_less_def lex_less_def word_sless_alt sint_eq_iff)

lemma gen_eq_iff: "gen_eq a c = (sint (major a) = sint (major c) \<and> sint (minor a) = sint (minor c))"
  by (simp add: gen_eq_def sint_eq_iff)

text \<open>
  C10. The six comparison operators implement the strict lexicographic order on
  (major, minor): equality is componentwise, \<open><\<close> is lexicographic, \<open>\<le>\<close> is \<open><\<close> or
  \<open>=\<close>, \<open>>\<close> is the negation of \<open>\<le>\<close>, \<open>\<ge>\<close> is \<open>>\<close> or \<open>=\<close>, \<open>\<noteq>\<close> is the negation of \<open>=\<close>,
  and exactly one of \<open>a < b\<close>, \<open>a = b\<close>, \<open>a > b\<close> holds.
\<close>

theorem camera_generation_order:
  "gen_eq a b = (sint (major a) = sint (major b) \<and> sint (minor a) = sint (minor b))
   \<and> gen_neq a b = (\<not> gen_eq a b)
   \<and> gen_less a b = lex_less a b
   \<and> gen_le a b = (gen_less a b \<or> gen_eq a b)
   \<and> gen_greater a b = (\<not> gen_le a b)
   \<and> gen_ge a b = (gen_greater a b \<or> gen_eq a b)
   \<and> gen_greater a b = lex_less b a
   \<and> ((gen_less a b \<and> \<not> gen_eq a b \<and> \<not> gen_greater a b)
      \<or> (\<not> gen_less a b \<and> gen_eq a b \<and> \<not> gen_greater a b)
      \<or> (\<not> gen_less a b \<and> \<not> gen_eq a b \<and> gen_greater a b))"
  unfolding gen_neq_def gen_le_def gen_greater_def gen_ge_def gen_less_lex gen_eq_iff lex_less_def
  by auto


theorem camera_generation_order_witness:
  "gen_less \<lparr>major = 3, minor = 1\<rparr> \<lparr>major = 3, minor = 2\<rparr>
   \<and> \<not> gen_eq \<lparr>major = 3, minor = 1\<rparr> \<lparr>major = 3, minor = 2\<rparr>
   \<and> \<not> gen_greater \<lparr>major = 3, minor = 1\<rparr> \<lparr>major = 3, minor = 2\<rparr>
   \<and> gen_greater \<lparr>major = 3, minor = 2\<rparr> \<lparr>major = 3, minor = 1\<rparr>"
  using camera_generation_order [of "\<lparr>major = 3, minor = 1\<rparr>" "\<lparr>major = 3, minor = 2\<rparr>"]
        camera_generation_order [of "\<lparr>major = 3, minor = 2\<rparr>" "\<lparr>major = 3, minor = 1\<rparr>"]
  by (simp add: lex_less_def)

end
